theory Spec2Isabelle
  imports Main "HOL-Library.Sublist" "HOL-Library.Word"
begin

section \<open>C strings\<close>

text \<open>
  A C string is modelled by the list of its bytes before the terminating NUL, so a
  well-formed string never contains the NUL byte.  A raw buffer (a file line as
  \<^verbatim>\<open>fgets\<close> stores it, a network response) is a list of bytes that may
  contain NUL; \<open>cstr\<close> reads it the way \<^verbatim>\<open>strlen\<close>, \<^verbatim>\<open>strstr\<close> and the
  other string functions of libc do, up to the first NUL.
\<close>

abbreviation NUL :: char where
  "NUL \<equiv> CHR 0x00"

abbreviation CR :: char where
  "CR \<equiv> CHR 0x0D"

abbreviation LF :: char where
  "LF \<equiv> CHR 0x0A"

definition cstr :: "char list \<Rightarrow> string" where
  "cstr buf = takeWhile (\<lambda>c. c \<noteq> NUL) buf"

text \<open>\<^verbatim>\<open>strcspn(s, reject)\<close>: the length of the initial segment of \<open>s\<close> free of
  the bytes of \<open>reject\<close>.\<close>

definition strcspn :: "string \<Rightarrow> string \<Rightarrow> nat" where
  "strcspn s reject = length (takeWhile (\<lambda>c. c \<notin> set reject) s)"

text \<open>\<^verbatim>\<open>strstr(s, needle)\<close>: the offset of the first occurrence of \<open>needle\<close> in
  \<open>s\<close>, \<open>None\<close> for the null pointer.\<close>

fun strstr :: "string \<Rightarrow> string \<Rightarrow> nat option" where
  "strstr [] needle = (if needle = [] then Some 0 else None)"
| "strstr (c # cs) needle =
     (if prefix needle (c # cs) then Some 0
      else map_option Suc (strstr cs needle))"

text \<open>\<^verbatim>\<open>strchr(s, c)\<close>: the offset of the first \<open>c\<close> in \<open>s\<close>.\<close>

definition strchr :: "string \<Rightarrow> char \<Rightarrow> nat option" where
  "strchr s c = (if c \<in> set s then Some (length (takeWhile (\<lambda>d. d \<noteq> c) s)) else None)"

section \<open>Ampersand escaping\<close>

text \<open>
  \<^verbatim>\<open>encodeamp\<close> runs over its argument twice: the first loop computes the length
  of the escaped string, the second copies the bytes into a freshly allocated buffer of
  that length plus one, writing \<^verbatim>\<open>&amp;\<close> for every \<^verbatim>\<open>&\<close>.  The buffer is a
  list of bytes of fixed length; a write past its end is a failure of the model
  (\<open>None\<close>), so that a result \<open>Some\<close> says that the copy stayed inside the allocation.
\<close>

fun encodeamp_len :: "string \<Rightarrow> nat \<Rightarrow> nat" where
  "encodeamp_len [] len = len"
| "encodeamp_len (c # cs) len =
     (if c = CHR ''&'' then encodeamp_len cs (len + 5) else encodeamp_len cs (len + 1))"

text \<open>\<^verbatim>\<open>memcpy(&t[j], src, strlen(src))\<close> into a buffer of fixed size.\<close>

definition memcpy :: "char list \<Rightarrow> nat \<Rightarrow> char list \<Rightarrow> char list option" where
  "memcpy t j src =
     (if j + length src \<le> length t
      then Some (take j t @ src @ drop (j + length src) t)
      else None)"

fun encodeamp_copy :: "string \<Rightarrow> char list \<Rightarrow> nat \<Rightarrow> (char list \<times> nat) option" where
  "encodeamp_copy [] t j = Some (t, j)"
| "encodeamp_copy (c # cs) t j =
     (if c = CHR ''&'' then
        (case memcpy t j ''&amp;'' of
           None \<Rightarrow> None
         | Some t' \<Rightarrow> encodeamp_copy cs t' (j + 5))
      else
        (case memcpy t j [c] of
           None \<Rightarrow> None
         | Some t' \<Rightarrow> encodeamp_copy cs t' (j + 1)))"

text \<open>
  \<open>malloc_ok\<close> says whether the allocation succeeds and \<open>junk\<close> is the byte the
  fresh memory happens to hold.  The result is the C string found in the buffer.
\<close>

definition encodeamp :: "bool \<Rightarrow> char \<Rightarrow> string \<Rightarrow> string option" where
  "encodeamp malloc_ok junk s =
     (let len = encodeamp_len s 0 in
      if \<not> malloc_ok then None
      else
        (case encodeamp_copy s (replicate (len + 1) junk) 0 of
           None \<Rightarrow> None
         | Some (t, j) \<Rightarrow>
             (case memcpy t j [NUL] of
                None \<Rightarrow> None
              | Some t' \<Rightarrow> Some (cstr t'))))"

text \<open>The escaping as the specification words it: every \<^verbatim>\<open>&\<close> becomes
  \<^verbatim>\<open>&amp;\<close>, every other byte stays, in order.\<close>

definition amp_escaped :: "string \<Rightarrow> string" where
  "amp_escaped s = concat (map (\<lambda>c. if c = CHR ''&'' then ''&amp;'' else [c]) s)"

section \<open>The outside world\<close>

text \<open>
  Everything the program does to its environment is recorded in a trace, in order:
  the requests handed to the TLS transport (\<^verbatim>\<open>sslreq\<close>, with the host they are
  sent to), what is printed on the standard streams, the diagnostics of
  \<^verbatim>\<open>warnp\<close> and \<^verbatim>\<open>warn0\<close> (without the program name and the text of
  \<^verbatim>\<open>errno\<close>), and the calls of \<^verbatim>\<open>sleep\<close>.  The network is scripted: \<open>replies\<close>
  lists what the transport returns to the successive requests, an error string or the
  bytes of a response; once the script is used up every request fails in the transport.
  \<open>files\<close> is the file system as the program reads it.
\<close>

datatype event =
    Sent string "char list"
  | Stderr string
  | Stdout string
  | Warn string
  | Sleep nat

record world =
  replies :: "(string + char list) list"
  trace :: "event list"
  files :: "string \<Rightarrow> char list option"

definition emit :: "event \<Rightarrow> world \<Rightarrow> world" where
  "emit e w = w\<lparr>trace := trace w @ [e]\<rparr>"

lemma trace_emit [simp]: "trace (emit e w) = trace w @ [e]"
  by (simp add: emit_def)

lemma replies_emit [simp]: "replies (emit e w) = replies w"
  by (simp add: emit_def)

lemma files_emit [simp]: "files (emit e w) = files w"
  by (simp add: emit_def)

definition fprintf_stderr :: "string \<Rightarrow> world \<Rightarrow> world" where
  "fprintf_stderr s w = emit (Stderr s) w"

definition printf :: "string \<Rightarrow> world \<Rightarrow> world" where
  "printf s w = emit (Stdout s) w"

definition warnp :: "string \<Rightarrow> world \<Rightarrow> world" where
  "warnp s w = emit (Warn s) w"

definition sleep :: "nat \<Rightarrow> world \<Rightarrow> world" where
  "sleep n w = emit (Sleep n) w"

text \<open>The events a run from \<open>w\<close> to \<open>w'\<close> has added.\<close>

definition events_since :: "world \<Rightarrow> world \<Rightarrow> event list" where
  "events_since w w' = drop (length (trace w)) (trace w')"

fun sent_host :: "event \<Rightarrow> string option" where
  "sent_host (Sent host req) = Some host"
| "sent_host _ = None"

text \<open>The requests that went out on the wire so far.\<close>

definition requests :: "world \<Rightarrow> event list" where
  "requests w = filter (\<lambda>e. sent_host e \<noteq> None) (trace w)"

text \<open>
  \<^verbatim>\<open>sslreq(host, "443", CERTFILE, req, len, resp, &resplen)\<close>: sends the request and
  stores at most \<open>resplen\<close> bytes of the response; the result is the error string, or
  the bytes received.
\<close>

definition sslreq :: "string \<Rightarrow> char list \<Rightarrow> nat \<Rightarrow> world \<Rightarrow> (string + char list) \<times> world" where
  "sslreq host req resplen w =
     (case replies w of
        [] \<Rightarrow> (Inl ''connection failed'', emit (Sent host req) w)
      | r # rs \<Rightarrow>
          (case r of
             Inl errstr \<Rightarrow> (Inl errstr, emit (Sent host req) (w\<lparr>replies := rs\<rparr>))
           | Inr resp \<Rightarrow> (Inr (take resplen resp), emit (Sent host req) (w\<lparr>replies := rs\<rparr>))))"

text \<open>
  The request signer, the percent-encoder and the entropy source are not part of this
  program (\<^verbatim>\<open>aws_sign.h\<close>, \<^verbatim>\<open>rfc3986.h\<close>, \<^verbatim>\<open>entropy.h\<close>, \<^verbatim>\<open>hexify.h\<close>); they
  are parameters of the model.  A signer of headers returns the content hash, the date
  and the authorization value, \<open>None\<close> when it fails.  \<open>noncehex\<close> is the hexadecimal
  form of the 16 random bytes, \<open>None\<close> when \<^verbatim>\<open>entropy_read\<close> fails.
\<close>

record ext =
  aws_sign_s3_headers ::
    "string \<Rightarrow> string \<Rightarrow> string \<Rightarrow> string \<Rightarrow> string \<Rightarrow> string \<Rightarrow> char list \<Rightarrow>
     (string \<times> string \<times> string) option"
  aws_sign_s3_querystr ::
    "string \<Rightarrow> string \<Rightarrow> string \<Rightarrow> string \<Rightarrow> string \<Rightarrow> string \<Rightarrow> nat \<Rightarrow> string option"
  aws_sign_ec2_headers ::
    "string \<Rightarrow> string \<Rightarrow> string \<Rightarrow> string \<Rightarrow> (string \<times> string \<times> string) option"
  aws_sign_sns_headers ::
    "string \<Rightarrow> string \<Rightarrow> string \<Rightarrow> string \<Rightarrow> (string \<times> string \<times> string) option"
  rfc3986_encode :: "string \<Rightarrow> string option"
  noncehex :: "string option"

section \<open>Formatting\<close>

abbreviation CRLF :: string where
  "CRLF \<equiv> [CR, LF]"

text \<open>Decimal output of \<^verbatim>\<open>printf\<close> for unsigned (\<^verbatim>\<open>%zu\<close>, \<^verbatim>\<open>PRIu64\<close>) and signed
  (\<^verbatim>\<open>%d\<close>, \<^verbatim>\<open>PRId64\<close>) values.\<close>

fun show_nat :: "nat \<Rightarrow> string" where
  "show_nat n =
     (if n < 10 then [''0123456789'' ! n]
      else show_nat (n div 10) @ [''0123456789'' ! (n mod 10)])"

declare show_nat.simps [simp del]

definition show_int :: "int \<Rightarrow> string" where
  "show_int i = (if i < 0 then CHR ''-'' # show_nat (nat (- i)) else show_nat (nat i))"

section \<open>Storage PUT\<close>

text \<open>The endpoint of the storage service: \<^verbatim>\<open>strcmp(region, "us-east-1")\<close> is
  non-zero exactly when the two strings differ.\<close>

definition s3_endpoint :: "string \<Rightarrow> string" where
  "s3_endpoint region =
     (if region \<noteq> ''us-east-1'' then ''s3.'' @ region @ ''.amazonaws.com''
      else ''s3.amazonaws.com'')"

text \<open>The test of the status line shared by all three kinds of request: the text
  \<^verbatim>\<open> 200 \<close> must occur, and not after the end of the first line.\<close>

definition status_200 :: "string \<Rightarrow> bool" where
  "status_200 resp =
     (let pos = strcspn resp CRLF in
      case strstr resp '' 200 '' of
        None \<Rightarrow> False
      | Some k \<Rightarrow> \<not> k > pos)"

definition s3_put ::
  "ext \<Rightarrow> string \<Rightarrow> string \<Rightarrow> string \<Rightarrow> string \<Rightarrow> string \<Rightarrow> char list \<Rightarrow> world \<Rightarrow> int \<times> world"
where
  "s3_put x key_id key_secret region bucket path buf w =
     (case aws_sign_s3_headers x key_id key_secret region ''PUT'' bucket path buf of
        None \<Rightarrow> (- 1, warnp ''Failed to sign PUT request'' w)
      | Some (x_amz_content_sha256, x_amz_date, authorization) \<Rightarrow>
          let headers =
                ''PUT '' @ path @ '' HTTP/1.1'' @ CRLF @
                ''Host: '' @ bucket @ ''.s3.amazonaws.com'' @ CRLF @
                ''X-Amz-Date: '' @ x_amz_date @ CRLF @
                ''X-Amz-Content-SHA256: '' @ x_amz_content_sha256 @ CRLF @
                ''Authorization: '' @ authorization @ CRLF @
                ''Content-Length: '' @ show_nat (length buf) @ CRLF @
                ''Connection: close'' @ CRLF @
                CRLF;
              req = headers @ buf;
              host = s3_endpoint region
          in
            (case sslreq host req 16384 w of
               (Inl errstr, w') \<Rightarrow> (- 1, warnp (''SSL request failed: '' @ errstr) w')
             | (Inr bytes, w') \<Rightarrow>
                 let resp = cstr bytes in
                 if \<not> status_200 resp
                 then (- 1, warnp (''S3 request failed:'' @ [LF] @ resp @ [LF]) w')
                 else (0, w')))"

definition s3_put_failed :: "nat \<Rightarrow> string \<Rightarrow> world \<Rightarrow> world" where
  "s3_put_failed n path w =
     fprintf_stderr (''S3 PUT failed '' @ show_nat n @ '' times: '' @ path @ [LF]) w"

function s3_put_loop_from ::
  "nat \<Rightarrow> ext \<Rightarrow> string \<Rightarrow> string \<Rightarrow> string \<Rightarrow> string \<Rightarrow> string \<Rightarrow> char list \<Rightarrow> world \<Rightarrow>
   int \<times> world"
where
  "s3_put_loop_from i x key_id key_secret region bucket path buf w =
     (if i < 10 then
        (case s3_put x key_id key_secret region bucket path buf w of
           (r, w') \<Rightarrow>
             if r = 0 then (0, w')
             else s3_put_loop_from (i + 1) x key_id key_secret region bucket path buf
                    (s3_put_failed (i + 1) path w'))
      else (- 1, w))"
  by pat_completeness auto
termination
  by (relation "measure (\<lambda>(i, _). 10 - i)") auto

declare s3_put_loop_from.simps [simp del]

definition s3_put_loop ::
  "ext \<Rightarrow> string \<Rightarrow> string \<Rightarrow> string \<Rightarrow> string \<Rightarrow> string \<Rightarrow> char list \<Rightarrow> world \<Rightarrow> int \<times> world"
where
  "s3_put_loop x key_id key_secret region bucket path buf w =
     s3_put_loop_from 0 x key_id key_secret region bucket path buf w"

section \<open>Compute API calls\<close>

text \<open>\<^verbatim>\<open>ec2_apicall\<close> returns the body of the response, \<open>None\<close> for the null
  pointer.\<close>

definition ec2_apicall ::
  "ext \<Rightarrow> string \<Rightarrow> string \<Rightarrow> string \<Rightarrow> string \<Rightarrow> world \<Rightarrow> string option \<times> world"
where
  "ec2_apicall x key_id key_secret region s w =
     (case aws_sign_ec2_headers x key_id key_secret region s of
        None \<Rightarrow> (None, warnp ''Failed to sign EC2 POST request'' w)
      | Some (x_amz_content_sha256, x_amz_date, authorization) \<Rightarrow>
          let req =
                ''POST / HTTP/1.0'' @ CRLF @
                ''Host: ec2.'' @ region @ ''.amazonaws.com'' @ CRLF @
                ''X-Amz-Date: '' @ x_amz_date @ CRLF @
                ''X-Amz-Content-SHA256: '' @ x_amz_content_sha256 @ CRLF @
                ''Authorization: '' @ authorization @ CRLF @
                ''Content-Length: '' @ show_nat (length s) @ CRLF @
                ''Connection: close'' @ CRLF @
                CRLF @
                s;
              host = ''ec2.'' @ region @ ''.amazonaws.com''
          in
            (case sslreq host req 16384 w of
               (Inl errstr, w') \<Rightarrow> (None, warnp (''SSL request failed: '' @ errstr) w')
             | (Inr bytes, w') \<Rightarrow>
                 let resp = cstr bytes in
                 if length resp \<noteq> length bytes
                 then (None, warnp ''NUL byte in EC2 API response'' w')
                 else if \<not> status_200 resp
                 then (None, warnp (''EC2 API request failed:'' @ [LF] @ resp @ [LF]) w')
                 else
                   (case strstr resp (CRLF @ CRLF) of
                      None \<Rightarrow>
                        (None, warnp (''Bad EC2 API response received:'' @ [LF] @ resp @ [LF]) w')
                    | Some k \<Rightarrow> (Some (drop (k + 4) resp), w'))))"

definition ec2_apicall_failed :: "nat \<Rightarrow> world \<Rightarrow> world" where
  "ec2_apicall_failed n w =
     fprintf_stderr (''EC2 API call failed '' @ show_nat n @ '' times'' @ [LF]) w"

function ec2_apicall_loop_from ::
  "nat \<Rightarrow> ext \<Rightarrow> string \<Rightarrow> string \<Rightarrow> string \<Rightarrow> string \<Rightarrow> world \<Rightarrow> string option \<times> world"
where
  "ec2_apicall_loop_from i x key_id key_secret region s w =
     (if i < 10 then
        (case ec2_apicall x key_id key_secret region s w of
           (body, w') \<Rightarrow>
             if body \<noteq> None then (body, w')
             else ec2_apicall_loop_from (i + 1) x key_id key_secret region s
                    (ec2_apicall_failed (i + 1) w'))
      else (None, w))"
  by pat_completeness auto
termination
  by (relation "measure (\<lambda>(i, _). 10 - i)") auto

declare ec2_apicall_loop_from.simps [simp del]

definition ec2_apicall_loop ::
  "ext \<Rightarrow> string \<Rightarrow> string \<Rightarrow> string \<Rightarrow> string \<Rightarrow> world \<Rightarrow> string option \<times> world"
where
  "ec2_apicall_loop x key_id key_secret region s w =
     ec2_apicall_loop_from 0 x key_id key_secret region s w"

section \<open>Notions used to state the properties\<close>

text \<open>
  \<open>failures attempt ok report n i w\<close> is the world after \<open>n\<close> attempts in a row,
  starting in \<open>w\<close>, have all failed, the failure of attempt number \<open>j\<close> being
  reported by \<open>report j\<close>; it is \<open>None\<close> when one of these attempts succeeds.
\<close>

fun failures ::
  "('w \<Rightarrow> 'r \<times> 'w) \<Rightarrow> ('r \<Rightarrow> bool) \<Rightarrow> (nat \<Rightarrow> 'w \<Rightarrow> 'w) \<Rightarrow> nat \<Rightarrow> nat \<Rightarrow> 'w \<Rightarrow> 'w option"
where
  "failures attempt ok report 0 i w = Some w"
| "failures attempt ok report (Suc n) i w =
     (case attempt w of
        (r, w') \<Rightarrow>
          if ok r then None
          else failures attempt ok report n (i + 1) (report (i + 1) w'))"

text \<open>A retry of at most \<open>n\<close> attempts by recursion on \<open>n\<close>, to reason about the
  counting loops.\<close>

fun bounded_retry ::
  "('w \<Rightarrow> 'r \<times> 'w) \<Rightarrow> ('r \<Rightarrow> bool) \<Rightarrow> (nat \<Rightarrow> 'w \<Rightarrow> 'w) \<Rightarrow> nat \<Rightarrow> nat \<Rightarrow> 'w \<Rightarrow>
   'r option \<times> 'w"
where
  "bounded_retry attempt ok report 0 i w = (None, w)"
| "bounded_retry attempt ok report (Suc n) i w =
     (case attempt w of
        (r, w') \<Rightarrow>
          if ok r then (Some r, w')
          else bounded_retry attempt ok report n (i + 1) (report (i + 1) w'))"

text \<open>Sample collaborators and a sample world, for concrete runs.\<close>

definition demo_ext :: ext where
  "demo_ext =
     \<lparr>aws_sign_s3_headers = (\<lambda>_ _ _ _ _ _ _. Some (''e3b0c442'', ''20190320T000000Z'', ''AWS4 sig'')),
      aws_sign_s3_querystr = (\<lambda>_ _ _ m _ _ _. Some (''X-Amz-Expires=604800&X-Amz-Signature='' @ m)),
      aws_sign_ec2_headers = (\<lambda>_ _ _ _. Some (''e3b0c442'', ''20190320T000000Z'', ''AWS4 sig'')),
      aws_sign_sns_headers = (\<lambda>_ _ _ _. Some (''e3b0c442'', ''20190320T000000Z'', ''AWS4 sig'')),
      rfc3986_encode = Some,
      noncehex = Some ''00112233445566778899aabbccddeeff''\<rparr>"

definition ok_reply :: "string \<Rightarrow> string + char list" where
  "ok_reply body = Inr (''HTTP/1.1 200 OK'' @ CRLF @ CRLF @ body)"

definition demo_world :: "(string + char list) list \<Rightarrow> world" where
  "demo_world rs = \<lparr>replies = rs, trace = [], files = (\<lambda>_. None)\<rparr>"

section \<open>Extraction from tag-delimited responses\<close>

lemma strstr_bound:
  "strstr s needle = Some k \<Longrightarrow> k + length needle \<le> length s"
proof (induction s arbitrary: k)
  case Nil
  then show ?case by (simp split: if_splits)
next
  case (Cons c cs)
  show ?case
  proof (cases "prefix needle (c # cs)")
    case True
    with Cons.prems prefix_length_le [of needle "c # cs"] show ?thesis by simp
  next
    case False
    with Cons.prems obtain j where "strstr cs needle = Some j" "k = Suc j" by auto
    with Cons.IH show ?thesis by simp
  qed
qed

text \<open>
  The loop of \<^verbatim>\<open>xmlextracts\<close>: \<open>s\<close> is the rest of the text still to be searched
  and \<open>vallist\<close> the contents found so far.  An opening tag with no closing tag after
  it is an error (\<open>None\<close>).
\<close>

function xmlextracts_loop :: "string \<Rightarrow> string \<Rightarrow> string list \<Rightarrow> string list option" where
  "xmlextracts_loop tagname s vallist =
     (let tag = ''<'' @ tagname @ ''>'';
          stag = ''</'' @ tagname @ ''>''
      in
        (case strstr s tag of
           None \<Rightarrow> Some vallist
         | Some k \<Rightarrow>
             let pst = drop (k + length tag) s in
             (case strstr pst stag of
                None \<Rightarrow> None
              | Some j \<Rightarrow>
                  xmlextracts_loop tagname (drop (j + length stag) pst)
                    (vallist @ [take j pst]))))"
  by pat_completeness auto
termination
  by (relation "measure (\<lambda>(tagname, s, vallist). length s)")
     (auto dest!: strstr_bound)

declare xmlextracts_loop.simps [simp del]

definition xmlextracts :: "string \<Rightarrow> string \<Rightarrow> string list option" where
  "xmlextracts s tagname = xmlextracts_loop tagname s []"

definition xmlextract :: "string \<Rightarrow> string \<Rightarrow> string option" where
  "xmlextract s tagname =
     (case xmlextracts s tagname of
        None \<Rightarrow> None
      | Some vals \<Rightarrow> (case vals of [] \<Rightarrow> None | contents # _ \<Rightarrow> Some contents))"

section \<open>Polling stages\<close>

text \<open>A request that obtains a response takes one reply from the script; no request
  ever adds one.  The polling loops below terminate for this reason: each round either
  ends the stage or has used up a reply.\<close>

lemma sslreq_replies:
  "sslreq host req n w = (r, w') \<Longrightarrow>
   length (replies w') \<le> length (replies w) \<and>
   (\<forall>bytes. r = Inr bytes \<longrightarrow> length (replies w') < length (replies w))"
  by (auto simp: sslreq_def emit_def split: list.splits sum.splits)

lemma ec2_apicall_replies:
  "ec2_apicall x key_id key_secret region s w = (body, w') \<Longrightarrow>
   length (replies w') \<le> length (replies w) \<and>
   (body \<noteq> None \<longrightarrow> length (replies w') < length (replies w))"
  by (auto simp: ec2_apicall_def warnp_def emit_def Let_def dest!: sslreq_replies
      split: option.splits prod.splits sum.splits if_splits)

lemma ec2_apicall_loop_from_replies:
  "ec2_apicall_loop_from i x key_id key_secret region s w = (body, w') \<Longrightarrow>
   length (replies w') \<le> length (replies w) \<and>
   (body \<noteq> None \<longrightarrow> length (replies w') < length (replies w))"
proof (induction i x key_id key_secret region s w rule: ec2_apicall_loop_from.induct)
  case (1 i x key_id key_secret region s w)
  show ?case
  proof (cases "i < 10")
    case False
    with "1.prems" show ?thesis by (simp add: ec2_apicall_loop_from.simps [of i])
  next
    case True
    obtain b1 w1 where call: "ec2_apicall x key_id key_secret region s w = (b1, w1)"
      by (cases "ec2_apicall x key_id key_secret region s w")
    note r1 = ec2_apicall_replies [OF call]
    show ?thesis
    proof (cases "b1 = None")
      case False
      with "1.prems" True call have "body = b1" "w' = w1"
        by (simp_all add: ec2_apicall_loop_from.simps [of i])
      with r1 False show ?thesis by simp
    next
      case None: True
      with "1.prems" True call
      have rest: "ec2_apicall_loop_from (i + 1) x key_id key_secret region s
                    (ec2_apicall_failed (i + 1) w1) = (body, w')"
        by (simp add: ec2_apicall_loop_from.simps [of i])
      have "replies (ec2_apicall_failed (i + 1) w1) = replies w1"
        by (simp add: ec2_apicall_failed_def fprintf_stderr_def emit_def)
      with "1.IH" [OF True call [symmetric] _ rest] None r1 show ?thesis by auto
    qed
  qed
qed

lemma ec2_apicall_loop_replies:
  "ec2_apicall_loop x key_id key_secret region s w = (Some resp, w') \<Longrightarrow>
   length (replies w') < length (replies w)"
  using ec2_apicall_loop_from_replies [of 0 x key_id key_secret region s w "Some resp" w']
  by (simp add: ec2_apicall_loop_def)

text \<open>\<^verbatim>\<open>printstatus\<close> with the variable \<^verbatim>\<open>laststatus\<close> passed in and out.\<close>

definition printstatus :: "string \<Rightarrow> string \<Rightarrow> string option \<Rightarrow> world \<Rightarrow> string option \<times> world" where
  "printstatus pfx status laststatus w =
     (case laststatus of
        None \<Rightarrow> (Some status, fprintf_stderr (pfx @ '': '' @ status) w)
      | Some old \<Rightarrow>
          if status \<noteq> old
          then (Some status, fprintf_stderr (pfx @ '': '' @ status) (fprintf_stderr [LF] w))
          else (laststatus, fprintf_stderr ''.'' w))"

lemma printstatus_replies:
  "printstatus pfx status laststatus w = (l, w') \<Longrightarrow> replies w' = replies w"
  by (auto simp: printstatus_def fprintf_stderr_def emit_def split: option.splits if_splits)

function waitforimport_loop ::
  "ext \<Rightarrow> string \<Rightarrow> string \<Rightarrow> string \<Rightarrow> string \<Rightarrow> string option \<Rightarrow> world \<Rightarrow> string option \<times> world"
where
  "waitforimport_loop x region taskid key_id key_secret laststatus w =
     (let s = ''Action=DescribeConversionTasks&'' @
              ''ConversionTaskId.1='' @ taskid @ ''&'' @
              ''Version=2014-09-01''
      in
        (case ec2_apicall_loop x key_id key_secret region s w of
           (None, w1) \<Rightarrow> (None, w1)
         | (Some resp, w1) \<Rightarrow>
             (case xmlextract resp ''volume'' of
                None \<Rightarrow>
                  (None,
                   warnp (''Could not find <volume> in DescribeConversionTasks response: '' @ resp)
                     w1)
              | Some volume \<Rightarrow>
                  (case (if strstr resp ''<state>active</state>'' = None
                         then xmlextract volume ''id'' else None) of
                     Some volid \<Rightarrow> (Some volid, fprintf_stderr ('' done.'' @ [LF]) w1)
                   | None \<Rightarrow>
                       (case xmlextract resp ''statusMessage'' of
                          None \<Rightarrow>
                            (None,
                             warnp (''Could not find <statusMessage> in DescribeConversionTasks response: ''
                                    @ resp) w1)
                        | Some status \<Rightarrow>
                            (case printstatus ''Importing volume'' status laststatus w1 of
                               (laststatus', w2) \<Rightarrow>
                                 waitforimport_loop x region taskid key_id key_secret laststatus'
                                   (sleep 10 w2)))))))"
  by pat_completeness auto
termination
  by (relation "measure (\<lambda>(x, region, taskid, key_id, key_secret, laststatus, w). length (replies w))")
     (auto simp: sleep_def dest!: ec2_apicall_loop_replies [OF sym] printstatus_replies [OF sym])

declare waitforimport_loop.simps [simp del]

definition waitforimport ::
  "ext \<Rightarrow> string \<Rightarrow> string \<Rightarrow> string \<Rightarrow> string \<Rightarrow> world \<Rightarrow> string option \<times> world"
where
  "waitforimport x region taskid key_id key_secret w =
     waitforimport_loop x region taskid key_id key_secret None w"

function waitforsnapshot ::
  "ext \<Rightarrow> string \<Rightarrow> string \<Rightarrow> string \<Rightarrow> string \<Rightarrow> world \<Rightarrow> int \<times> world"
where
  "waitforsnapshot x region snapshot key_id key_secret w =
     (let s = ''Action=DescribeSnapshots&'' @
              ''SnapshotId.1='' @ snapshot @ ''&'' @
              ''Version=2014-09-01''
      in
        (case ec2_apicall_loop x key_id key_secret region s w of
           (None, w1) \<Rightarrow> (- 1, w1)
         | (Some resp, w1) \<Rightarrow>
             (case xmlextract resp ''status'' of
                None \<Rightarrow>
                  (- 1,
                   warnp (''Could not find <status> in DescribeSnapshots response: '' @ resp) w1)
              | Some status \<Rightarrow>
                  if status = ''completed'' then (0, fprintf_stderr ('' done.'' @ [LF]) w1)
                  else if status = ''pending'' then
                    waitforsnapshot x region snapshot key_id key_secret
                      (sleep 10 (fprintf_stderr ''.'' w1))
                  else (- 1, warnp (''Bad status from DescribeSnapshots: '' @ status) w1))))"
  by pat_completeness auto
termination
  by (relation "measure (\<lambda>(x, region, snapshot, key_id, key_secret, w). length (replies w))")
     (auto simp: sleep_def fprintf_stderr_def dest!: ec2_apicall_loop_replies [OF sym])

declare waitforsnapshot.simps [simp del]

function waitforami ::
  "ext \<Rightarrow> string \<Rightarrow> string \<Rightarrow> string \<Rightarrow> string \<Rightarrow> world \<Rightarrow> int \<times> world"
where
  "waitforami x region ami key_id key_secret w =
     (let s = ''Action=DescribeImages&'' @
              ''ImageId.1='' @ ami @ ''&'' @
              ''Version=2014-09-01''
      in
        (case ec2_apicall_loop x key_id key_secret region s w of
           (None, w1) \<Rightarrow> (- 1, w1)
         | (Some resp, w1) \<Rightarrow>
             (case xmlextract resp ''imageState'' of
                None \<Rightarrow>
                  (- 1,
                   warnp (''Could not find <imageState> in DescribeImages response: '' @ resp) w1)
              | Some status \<Rightarrow>
                  if status = ''available'' then (0, fprintf_stderr ('' done.'' @ [LF]) w1)
                  else if status = ''pending'' then
                    waitforami x region ami key_id key_secret
                      (sleep 10 (fprintf_stderr ''.'' w1))
                  else (- 1, warnp (''Bad status from DescribeImages: '' @ status) w1))))"
  by pat_completeness auto
termination
  by (relation "measure (\<lambda>(x, region, ami, key_id, key_secret, w). length (replies w))")
     (auto simp: sleep_def fprintf_stderr_def dest!: ec2_apicall_loop_replies [OF sym])

declare waitforami.simps [simp del]

text \<open>Sample responses of the conversion-task query: a task reported as cancelled
  after an error whose volume carries an id, the same without an id, and a completed one.\<close>

definition failed_task_with_id :: string where
  "failed_task_with_id =
     ''<conversionTask><state>cancelled</state>'' @
     ''<statusMessage>ClientError: unsupported disk image</statusMessage>'' @
     ''<importVolume><volume><size>1</size><id>vol-123</id></volume></importVolume>'' @
     ''</conversionTask>''"

definition failed_task_without_id :: string where
  "failed_task_without_id =
     ''<conversionTask><state>cancelled</state>'' @
     ''<statusMessage>ClientError: unsupported disk image</statusMessage>'' @
     ''<importVolume><volume><size>1</size></volume></importVolume>'' @
     ''</conversionTask>''"

definition completed_task :: string where
  "completed_task =
     ''<conversionTask><state>completed</state>'' @
     ''<importVolume><volume><size>1</size><id>vol-456</id></volume></importVolume>'' @
     ''</conversionTask>''"

section \<open>Reading the credential file\<close>

text \<open>
  \<^verbatim>\<open>fgets(buf, size, f)\<close> on the unread rest \<open>f\<close> of a file: at most
  \<open>size - 1\<close> bytes, up to and including the first newline; \<open>None\<close> at the end of
  the file.  The result is the bytes stored and the rest of the file.
\<close>

definition fgets :: "nat \<Rightarrow> char list \<Rightarrow> (char list \<times> char list) option" where
  "fgets sz f =
     (if f = [] then None
      else
        let line = takeWhile (\<lambda>c. c \<noteq> LF) f;
            n = (if length line < length f then length line + 1 else length line);
            m = min n (sz - 1)
        in Some (take m f, drop m f))"

lemma fgets_rest:
  assumes "fgets 1024 f = Some (bytes, f')"
  shows "length f' < length f"
proof -
  from assms have ne: "f \<noteq> []"
    by (auto simp: fgets_def split: if_splits)
  define n where
    "n = (if length (takeWhile (\<lambda>c. c \<noteq> LF) f) < length f
          then length (takeWhile (\<lambda>c. c \<noteq> LF) f) + 1
          else length (takeWhile (\<lambda>c. c \<noteq> LF) f))"
  have "length (takeWhile (\<lambda>c. c \<noteq> LF) f) \<le> length f"
    by (rule length_takeWhile_le)
  with ne have "0 < n" by (auto simp: n_def)
  moreover from assms ne have "f' = drop (min n 1023) f"
    by (simp add: fgets_def Let_def n_def)
  ultimately show ?thesis using ne by simp
qed

definition warn0 :: "string \<Rightarrow> world \<Rightarrow> world" where
  "warn0 s w = emit (Warn s) w"

text \<open>How the reading loop of \<^verbatim>\<open>readkeys\<close> is left: by the end of the file or the
  \<^verbatim>\<open>break\<close>, or by a jump to one of the error labels.\<close>

datatype loop_exit = Finished | Err1 | Err2

function readkeys_loop ::
  "string \<Rightarrow> char list \<Rightarrow> string option \<Rightarrow> string option \<Rightarrow> world \<Rightarrow>
   loop_exit \<times> string option \<times> string option \<times> world"
where
  "readkeys_loop fname f key_id key_secret w =
     (case fgets 1024 f of
        None \<Rightarrow> (Finished, key_id, key_secret, w)
      | Some (bytes, f') \<Rightarrow>
          let buf = cstr bytes;
              p = strcspn buf CRLF
          in
            if p = length buf
            then (Finished, key_id, key_secret, warn0 (''Missing EOL in '' @ fname) w)
            else
              let buf = take p buf in
              (case strchr buf (CHR ''='') of
                 None \<Rightarrow> (Err2, key_id, key_secret, w)
               | Some q \<Rightarrow>
                   let name = take q buf;
                       val = drop (q + 1) buf
                   in
                     if name = ''ACCESS_KEY_ID'' then
                       (if key_id \<noteq> None
                        then (Err1, key_id, key_secret, warn0 ''ACCESS_KEY_ID specified twice'' w)
                        else readkeys_loop fname f' (Some val) key_secret w)
                     else if name = ''ACCESS_KEY_SECRET'' then
                       (if key_secret \<noteq> None
                        then (Err1, key_id, key_secret,
                              warn0 ''ACCESS_KEY_SECRET specified twice'' w)
                        else readkeys_loop fname f' key_id (Some val) w)
                     else (Err2, key_id, key_secret, w)))"
  by pat_completeness auto
termination
  by (relation "measure (\<lambda>(fname, f, key_id, key_secret, w). length f)")
     (auto dest: fgets_rest)

declare readkeys_loop.simps [simp del]

text \<open>
  \<^verbatim>\<open>readkeys\<close> returns the two keys, \<open>None\<close> for the result -1.  The file is read
  from memory, so the failures of \<^verbatim>\<open>ferror\<close> and \<^verbatim>\<open>fclose\<close> do not occur, and
  \<^verbatim>\<open>strdup\<close> is taken to succeed.
\<close>

definition readkeys :: "string \<Rightarrow> world \<Rightarrow> (string \<times> string) option \<times> world" where
  "readkeys fname w =
     (case files w fname of
        None \<Rightarrow> (None, warnp (''fopen('' @ fname @ '')'') w)
      | Some f \<Rightarrow>
          (case readkeys_loop fname f None None w of
             (Err2, key_id, key_secret, w') \<Rightarrow>
               (None,
                warn0 (''Lines in '' @ fname @ '' must be ACCESS_KEY_(ID|SECRET)=...'') w')
           | (Err1, key_id, key_secret, w') \<Rightarrow> (None, w')
           | (Finished, key_id, key_secret, w') \<Rightarrow>
               (case key_id of
                  None \<Rightarrow> (None, warn0 ''Need ACCESS_KEY_ID and ACCESS_KEY_SECRET'' w')
                | Some i \<Rightarrow>
                    (case key_secret of
                       None \<Rightarrow> (None, warn0 ''Need ACCESS_KEY_ID and ACCESS_KEY_SECRET'' w')
                     | Some s \<Rightarrow> (Some (i, s), w')))))"

text \<open>
  The file format in the words of the specification.  A file of terminated lines is the
  concatenation of its lines, each followed by a newline.  The text of a line ends at its
  first carriage return, if it has one.  A line is well formed when its text is
  \<^verbatim>\<open>ACCESS_KEY_ID=\<close> or \<^verbatim>\<open>ACCESS_KEY_SECRET=\<close> followed by a value.
\<close>

definition terminated_lines :: "string list \<Rightarrow> char list" where
  "terminated_lines ls = concat (map (\<lambda>l. l @ [LF]) ls)"

definition line_text :: "string \<Rightarrow> string" where
  "line_text l = takeWhile (\<lambda>c. c \<noteq> CR) l"

definition key_id_line :: "string \<Rightarrow> bool" where
  "key_id_line l = prefix ''ACCESS_KEY_ID='' (line_text l)"

definition key_secret_line :: "string \<Rightarrow> bool" where
  "key_secret_line l = prefix ''ACCESS_KEY_SECRET='' (line_text l)"

definition key_id_values :: "string list \<Rightarrow> string list" where
  "key_id_values ls = map (\<lambda>l. drop 14 (line_text l)) (filter key_id_line ls)"

definition key_secret_values :: "string list \<Rightarrow> string list" where
  "key_secret_values ls = map (\<lambda>l. drop 18 (line_text l)) (filter key_secret_line ls)"

definition keys_of_lines :: "string list \<Rightarrow> (string \<times> string) option" where
  "keys_of_lines ls =
     (if list_all (\<lambda>l. key_id_line l \<or> key_secret_line l) ls
      then (case (key_id_values ls, key_secret_values ls) of
              ([i], [s]) \<Rightarrow> Some (i, s)
            | _ \<Rightarrow> None)
      else None)"

text \<open>The lines of a file read one after the other, with the keys found so far, as far as
  the first line that stops the reading.\<close>

fun scan_lines ::
  "string list \<Rightarrow> string option \<Rightarrow> string option \<Rightarrow> loop_exit \<times> string option \<times> string option"
where
  "scan_lines [] key_id key_secret = (Finished, key_id, key_secret)"
| "scan_lines (l # ls) key_id key_secret =
     (if key_id_line l then
        (if key_id \<noteq> None then (Err1, key_id, key_secret)
         else scan_lines ls (Some (drop 14 (line_text l))) key_secret)
      else if key_secret_line l then
        (if key_secret \<noteq> None then (Err1, key_id, key_secret)
         else scan_lines ls key_id (Some (drop 18 (line_text l))))
      else (Err2, key_id, key_secret))"
text \<open>A world whose only file is the credential file.\<close>

definition keyfile_world :: "string \<Rightarrow> char list \<Rightarrow> world" where
  "keyfile_world fname f =
     \<lparr>replies = [], trace = [], files = (\<lambda>n. if n = fname then Some f else None)\<rparr>"

section \<open>Uploading the disk image\<close>

definition PARTSZ :: nat where
  "PARTSZ = 10 * 1024 * 1024"

abbreviation DQ :: string where
  "DQ \<equiv> [CHR 0x22]"

text \<open>
  The file offsets of the program have the type \<^verbatim>\<open>off_t\<close>, a signed integer of 64
  bits; \<^verbatim>\<open>uint64_t\<close> and \<^verbatim>\<open>int\<close> are unsigned of 64 bits and signed of 32 bits.
  Values are integers, and a conversion or an arithmetic result is brought into the range
  of its type by wrapping.  The division of C truncates towards zero.
\<close>

definition wrap_s64 :: "int \<Rightarrow> int" where
  "wrap_s64 i = (i + 2 ^ 63) mod 2 ^ 64 - 2 ^ 63"

definition wrap_u64 :: "int \<Rightarrow> int" where
  "wrap_u64 i = i mod 2 ^ 64"

definition wrap_s32 :: "int \<Rightarrow> int" where
  "wrap_s32 i = (i + 2 ^ 31) mod 2 ^ 32 - 2 ^ 31"

definition trunc_div :: "int \<Rightarrow> int \<Rightarrow> int" where
  "trunc_div a b =
     (if (a < 0) = (b < 0) then \<bar>a\<bar> div \<bar>b\<bar> else - (\<bar>a\<bar> div \<bar>b\<bar>))"

text \<open>The three numbers in the head of the manifest, as the arguments of
  \<^verbatim>\<open>asprintf\<close> compute them from \<^verbatim>\<open>sb.st_size\<close>:
  \<^verbatim>\<open>(uint64_t)sb.st_size\<close>,
  \<^verbatim>\<open>(int)((sb.st_size + (1 << 30) - 1) / (1 << 30))\<close> and
  \<^verbatim>\<open>(uint64_t)(sb.st_size + PARTSZ - 1) / PARTSZ\<close>; the first and the last are printed
  with \<^verbatim>\<open>PRId64\<close>, that is as signed numbers.\<close>

definition manifest_size :: "int \<Rightarrow> int" where
  "manifest_size st_size = wrap_s64 (wrap_u64 st_size)"

definition manifest_volume_size :: "int \<Rightarrow> int" where
  "manifest_volume_size st_size =
     wrap_s32 (trunc_div (wrap_s64 (st_size + 2 ^ 30 - 1)) (2 ^ 30))"

definition manifest_parts_count :: "int \<Rightarrow> int" where
  "manifest_parts_count st_size =
     wrap_s64 (wrap_u64 (wrap_s64 (st_size + int PARTSZ - 1)) div int PARTSZ)"

definition manifest_start :: "string \<Rightarrow> string \<Rightarrow> string \<Rightarrow> int \<Rightarrow> string" where
  "manifest_start bucket path query st_size =
     ''<?xml version='' @ DQ @ ''1.0'' @ DQ @ '' encoding='' @ DQ @ ''UTF-8'' @ DQ @
       '' standalone='' @ DQ @ ''yes'' @ DQ @ ''?>'' @
     ''<manifest>'' @
       ''<version>2010-11-15</version>'' @
       ''<file-format>RAW</file-format>'' @
       ''<importer>'' @
         ''<name>bsdec2-image-upload</name>'' @
         ''<version>1.2.2</version>'' @
         ''<release>2019-03-20</release>'' @
       ''</importer>'' @
       ''<self-destruct-url>https://'' @ bucket @ ''.s3.amazonaws.com'' @ path @ ''?'' @ query @
         ''</self-destruct-url>'' @
       ''<import>'' @
         ''<size>'' @ show_int (manifest_size st_size) @ ''</size>'' @
         ''<volume-size>'' @ show_int (manifest_volume_size st_size) @ ''</volume-size>'' @
         ''<parts count='' @ DQ @ show_int (manifest_parts_count st_size) @ DQ @ ''>''"

text \<open>
  A presigned query string, escaped for the manifest: \<^verbatim>\<open>aws_sign_s3_querystr\<close>
  followed by \<^verbatim>\<open>encodeamp\<close>, whose allocation is taken to succeed.
\<close>

definition presigned_query ::
  "ext \<Rightarrow> string \<Rightarrow> string \<Rightarrow> string \<Rightarrow> string \<Rightarrow> string \<Rightarrow> string \<Rightarrow> string option"
where
  "presigned_query x key_id key_secret region method bucket path =
     (case aws_sign_s3_querystr x key_id key_secret region method bucket path 604800 of
        None \<Rightarrow> None
      | Some query \<Rightarrow> encodeamp True NUL query)"

text \<open>
  The text added to the manifest for one part: the \<^verbatim>\<open><part>\<close> element with its
  index, its byte range and its key, and the three elements with the presigned URLs.  It
  is \<open>None\<close> when one of the URLs cannot be signed; the program then gives the
  manifest up.
\<close>

definition part_block ::
  "ext \<Rightarrow> string \<Rightarrow> string \<Rightarrow> string \<Rightarrow> string \<Rightarrow> string \<Rightarrow> nat \<Rightarrow> nat \<Rightarrow> nat \<Rightarrow> string option"
where
  "part_block x key_id key_secret region bucket nonce idx first_byte last_byte =
     (let path = ''/'' @ nonce @ ''/part'' @ show_nat idx;
          s = ''<part index='' @ DQ @ show_nat idx @ DQ @ ''>'' @
              ''<byte-range start='' @ DQ @ show_nat first_byte @ DQ @
                '' end='' @ DQ @ show_nat last_byte @ DQ @ ''/>'' @
              ''<key>'' @ nonce @ ''/part'' @ show_nat idx @ ''</key>''
      in
        (case presigned_query x key_id key_secret region ''HEAD'' bucket path of
           None \<Rightarrow> None
         | Some head_query \<Rightarrow>
             (case presigned_query x key_id key_secret region ''GET'' bucket path of
                None \<Rightarrow> None
              | Some get_query \<Rightarrow>
                  (case presigned_query x key_id key_secret region ''DELETE'' bucket path of
                     None \<Rightarrow> None
                   | Some delete_query \<Rightarrow>
                       Some (s @
                         ''<head-url>https://'' @ bucket @ ''.s3.amazonaws.com'' @ path @ ''?'' @
                           head_query @ ''</head-url>'' @
                         ''<get-url>https://'' @ bucket @ ''.s3.amazonaws.com'' @ path @ ''?'' @
                           get_query @ ''</get-url>'' @
                         ''<delete-url>https://'' @ bucket @ ''.s3.amazonaws.com'' @ path @ ''?'' @
                           delete_query @ ''</delete-url>'' @
                         ''</part>'')))))"

text \<open>\<^verbatim>\<open>fread(buf, buflen, 1, f)\<close> on the unread rest of the file: one item of
  \<open>buflen\<close> bytes, or nothing.  An item of size 0 is never read.\<close>

definition fread :: "nat \<Rightarrow> char list \<Rightarrow> (char list \<times> char list) option" where
  "fread buflen f =
     (if buflen = 0 \<or> length f < buflen then None
      else Some (take buflen f, drop buflen f))"

text \<open>
  The loop over the parts.  \<open>pos\<close> and \<open>buflen\<close> are the variables of the program,
  \<open>f\<close> is the unread rest of the file and \<open>manifest\<close> the text collected so far.
  The result is the manifest with the blocks of all parts, \<open>None\<close> when a part could
  not be read, uploaded or described.
\<close>

function uploadvolume_parts ::
  "ext \<Rightarrow> string \<Rightarrow> string \<Rightarrow> string \<Rightarrow> string \<Rightarrow> string \<Rightarrow> string \<Rightarrow> nat \<Rightarrow>
   nat \<Rightarrow> nat \<Rightarrow> char list \<Rightarrow> string \<Rightarrow> world \<Rightarrow> string option \<times> world"
where
  "uploadvolume_parts x fname region bucket key_id key_secret nonce st_size pos buflen f manifest w =
     (if pos < st_size then
        (let w0 = fprintf_stderr ''.'' w;
             buflen' = (if st_size - pos < buflen then st_size - pos else buflen)
         in
           (case fread buflen' f of
              None \<Rightarrow> (None, warnp (''Error reading file: '' @ fname) w0)
            | Some (buf, f') \<Rightarrow>
                let path = ''/'' @ nonce @ ''/part'' @ show_nat (pos div PARTSZ) in
                (case s3_put_loop x key_id key_secret region bucket path buf w0 of
                   (r, w1) \<Rightarrow>
                     if r \<noteq> 0 then (None, warnp ''PUT failed'' w1)
                     else
                       (case part_block x key_id key_secret region bucket nonce
                               (pos div PARTSZ) pos (pos + buflen' - 1) of
                          None \<Rightarrow> (None, warnp ''Error generating presigned URL'' w1)
                        | Some block \<Rightarrow>
                            uploadvolume_parts x fname region bucket key_id key_secret nonce
                              st_size (pos + buflen') buflen' f' (manifest @ block) w1))))
      else (Some manifest, w))"
  by pat_completeness auto
termination
  by (relation "measure (\<lambda>(x, fname, region, bucket, key_id, key_secret, nonce, st_size, pos,
        buflen, f, manifest, w). st_size - pos)")
     (auto simp: fread_def split: if_splits)

declare uploadvolume_parts.simps [simp del]

text \<open>
  \<^verbatim>\<open>uploadvolume\<close> returns the path of the manifest and the size of the image,
  \<open>None\<close> for the null pointer.  The size of the file is what \<^verbatim>\<open>fstat\<close> reports,
  the length of its contents.
\<close>

definition uploadvolume ::
  "ext \<Rightarrow> string \<Rightarrow> string \<Rightarrow> string \<Rightarrow> string \<Rightarrow> string \<Rightarrow> world \<Rightarrow>
   (string \<times> int) option \<times> world"
where
  "uploadvolume x fname region bucket key_id key_secret w =
     (case noncehex x of
        None \<Rightarrow> (None, warnp ''Cannot generate nonce'' w)
      | Some nonce \<Rightarrow>
          (case files w fname of
             None \<Rightarrow> (None, warnp (''Cannot open disk image: '' @ fname) w)
           | Some f \<Rightarrow>
               let st_size = length f;
                   path = ''/'' @ nonce @ ''/manifest.xml''
               in
                 (case aws_sign_s3_querystr x key_id key_secret region ''DELETE'' bucket path
                         604800 of
                    None \<Rightarrow> (None, warnp ''Error generating presigned URL'' w)
                  | Some query0 \<Rightarrow>
                      (case encodeamp True NUL query0 of
                         None \<Rightarrow> (None, w)
                       | Some query \<Rightarrow>
                           let manifest = manifest_start bucket path query (int st_size);
                               w0 = fprintf_stderr
                                      (''Uploading '' @ fname @ '' to'' @ [LF] @
                                       ''http://'' @ bucket @ ''.s3.amazonaws.com/'' @ nonce @
                                       ''/'' @ [LF] @
                                       ''in '' @ show_int (manifest_parts_count (int st_size)) @
                                       '' part(s)'') w
                           in
                             (case uploadvolume_parts x fname region bucket key_id key_secret
                                     nonce st_size 0 PARTSZ f manifest w0 of
                                (None, w1) \<Rightarrow> (None, w1)
                              | (Some manifest1, w1) \<Rightarrow>
                                  let w2 = fprintf_stderr ('' done.'' @ [LF]) w1;
                                      s = manifest1 @ ''</parts></import></manifest>'';
                                      w3 = fprintf_stderr ''Uploading volume manifest...'' w2
                                  in
                                    (case s3_put_loop x key_id key_secret region bucket path s
                                            w3 of
                                       (r, w4) \<Rightarrow>
                                         if r \<noteq> 0 then (None, w4)
                                         else (Some (path, int st_size),
                                               fprintf_stderr ('' done.'' @ [LF]) w4)))))))"

text \<open>The byte ranges of the parts of an image of \<open>n\<close> bytes, with their indices, as
  the specification describes them: part \<open>i\<close> starts at byte \<open>i * PARTSZ\<close> and ends
  before the next part or at the end of the image.\<close>

definition part_ranges :: "nat \<Rightarrow> (nat \<times> nat \<times> nat) list" where
  "part_ranges n =
     map (\<lambda>i. (i, i * PARTSZ, min ((i + 1) * PARTSZ) n - 1))
       [0 ..< (n + PARTSZ - 1) div PARTSZ]"

definition range_start :: "nat \<times> nat \<times> nat \<Rightarrow> nat" where
  "range_start r = fst (snd r)"

definition range_end :: "nat \<times> nat \<times> nat \<Rightarrow> nat" where
  "range_end r = snd (snd r)"

text \<open>A world whose only file is a disk image, with a script for the network.\<close>

definition image_world :: "string \<Rightarrow> char list \<Rightarrow> (string + char list) list \<Rightarrow> world" where
  "image_world fname f rs =
     \<lparr>replies = rs, trace = [], files = (\<lambda>n. if n = fname then Some f else None)\<rparr>"

section \<open>The other stages of the pipeline\<close>

text \<open>Each stage builds a request of the compute API, issues it once
  (\<^verbatim>\<open>ec2_apicall\<close>) or with retries (\<^verbatim>\<open>ec2_apicall_loop\<close>), and looks into the
  response.  A result \<open>None\<close> stands for the null pointer, a result \<open>- 1\<close> for
  failure.\<close>

definition getregionlist ::
  "ext \<Rightarrow> string \<Rightarrow> string \<Rightarrow> string \<Rightarrow> world \<Rightarrow> string list option \<times> world"
where
  "getregionlist x key_id key_secret region w =
     (case ec2_apicall_loop x key_id key_secret region
             (''Action=DescribeRegions&'' @ ''Version=2014-09-01'') w of
        (None, w1) \<Rightarrow> (None, w1)
      | (Some resp, w1) \<Rightarrow>
          (case xmlextract resp ''regionInfo'' of
             None \<Rightarrow>
               (None,
                warnp (''Could not find regionInfo in DescribeRegions response:'' @ [LF] @ resp @
                       [LF]) w1)
           | Some regionInfo \<Rightarrow>
               (case xmlextracts regionInfo ''regionName'' of
                  None \<Rightarrow> (None, w1)
                | Some regions \<Rightarrow>
                    if length regions = 0
                    then (None,
                          warn0 (''Could not find any regions in DescribeRegions response:'' @
                                 [LF] @ resp @ [LF]) w1)
                    else (Some regions, w1))))"

definition importvolume ::
  "ext \<Rightarrow> string \<Rightarrow> string \<Rightarrow> string \<Rightarrow> int \<Rightarrow> string \<Rightarrow> string \<Rightarrow> world \<Rightarrow>
   string option \<times> world"
where
  "importvolume x region bucket manifest sz key_id key_secret w =
     (case aws_sign_s3_querystr x key_id key_secret region ''GET'' bucket manifest 604800 of
        None \<Rightarrow> (None, w)
      | Some query \<Rightarrow>
          (case rfc3986_encode x
                  (''https://'' @ bucket @ ''.s3.amazonaws.com'' @ manifest @ ''?'' @ query) of
             None \<Rightarrow> (None, w)
           | Some urlenc \<Rightarrow>
               let s = ''Action=ImportVolume&'' @
                       ''AvailabilityZone='' @ region @ ''a&'' @
                       ''Image.Format=RAW&'' @
                       ''Image.Bytes='' @ show_int (wrap_s64 sz) @ ''&'' @
                       ''Image.ImportManifestUrl='' @ urlenc @ ''&'' @
                       ''Volume.Size='' @
                         show_int (wrap_s64 (wrap_u64 (sz + 2 ^ 30 - 1) div 2 ^ 30)) @ ''&'' @
                       ''Version=2014-09-01''
               in
                 (case ec2_apicall x key_id key_secret region s w of
                    (None, w1) \<Rightarrow> (None, w1)
                  | (Some resp, w1) \<Rightarrow>
                      (case xmlextract resp ''conversionTaskId'' of
                         None \<Rightarrow>
                           (None,
                            warnp (''Could not find conversionTaskID in ImportVolume response:'' @
                                   [LF] @ resp @ [LF]) w1)
                       | Some taskid \<Rightarrow> (Some taskid, w1)))))"

definition createsnapshot ::
  "ext \<Rightarrow> string \<Rightarrow> string \<Rightarrow> string \<Rightarrow> string \<Rightarrow> world \<Rightarrow> string option \<times> world"
where
  "createsnapshot x region volume key_id key_secret w =
     (let s = ''Action=CreateSnapshot&'' @
              ''VolumeId='' @ volume @ ''&'' @
              ''Version=2014-09-01'';
          w0 = fprintf_stderr ''Creating snapshot'' w
      in
        (case ec2_apicall x key_id key_secret region s w0 of
           (None, w1) \<Rightarrow> (None, w1)
         | (Some resp, w1) \<Rightarrow>
             (case xmlextract resp ''snapshotId'' of
                None \<Rightarrow>
                  (None,
                   warnp (''Could not find <snapshotId> in CreateSnapshot response: '' @ resp) w1)
              | Some snapshot \<Rightarrow> (Some snapshot, w1))))"

definition deletevolume ::
  "ext \<Rightarrow> string \<Rightarrow> string \<Rightarrow> string \<Rightarrow> string \<Rightarrow> world \<Rightarrow> int \<times> world"
where
  "deletevolume x region volume key_id key_secret w =
     (let s = ''Action=DeleteVolume&'' @
              ''VolumeId='' @ volume @ ''&'' @
              ''Version=2014-09-01''
      in
        (case ec2_apicall x key_id key_secret region s w of
           (None, w1) \<Rightarrow> (- 1, w1)
         | (Some resp, w1) \<Rightarrow>
             if strstr resp ''<return>true</return>'' = None
             then (- 1, warnp (''DeleteVolume failed: '' @ resp) w1)
             else (0, w1)))"

definition registerimage ::
  "ext \<Rightarrow> string \<Rightarrow> string \<Rightarrow> string \<Rightarrow> string \<Rightarrow> string \<Rightarrow> bool \<Rightarrow> bool \<Rightarrow> string \<Rightarrow>
   string \<Rightarrow> world \<Rightarrow> string option \<times> world"
where
  "registerimage x region snapshot name desc arch sriov ena key_id key_secret w =
     (case rfc3986_encode x name of
        None \<Rightarrow> (None, w)
      | Some nameenc \<Rightarrow>
          (case rfc3986_encode x desc of
             None \<Rightarrow> (None, w)
           | Some descenc \<Rightarrow>
               (case rfc3986_encode x arch of
                  None \<Rightarrow> (None, w)
                | Some archenc \<Rightarrow>
                    let s = ''Action=RegisterImage&'' @
                            ''Name='' @ nameenc @ ''&'' @
                            ''Description='' @ descenc @ ''&'' @
                            ''Architecture='' @ archenc @ ''&'' @
                            ''RootDeviceName=%2Fdev%2Fsda1&'' @
                            ''VirtualizationType=hvm&'' @
                            (if sriov then ''SriovNetSupport=simple&'' else '''') @
                            (if ena then ''EnaSupport=true&'' else '''') @
                            ''BlockDeviceMapping.1.DeviceName=%2Fdev%2Fsda1&'' @
                            ''BlockDeviceMapping.1.Ebs.SnapshotId='' @ snapshot @ ''&'' @
                            ''BlockDeviceMapping.1.Ebs.VolumeType=gp2&'' @
                            ''BlockDeviceMapping.1.Ebs.VolumeSize=10&'' @
                            ''BlockDeviceMapping.2.DeviceName=%2Fdev%2Fsdb&'' @
                            ''BlockDeviceMapping.2.VirtualName=ephemeral0&'' @
                            ''BlockDeviceMapping.3.DeviceName=%2Fdev%2Fsdc&'' @
                            ''BlockDeviceMapping.3.VirtualName=ephemeral1&'' @
                            ''BlockDeviceMapping.4.DeviceName=%2Fdev%2Fsdd&'' @
                            ''BlockDeviceMapping.4.VirtualName=ephemeral2&'' @
                            ''BlockDeviceMapping.5.DeviceName=%2Fdev%2Fsde&'' @
                            ''BlockDeviceMapping.5.VirtualName=ephemeral3&'' @
                            ''Version=2016-11-15'';
                        w0 = fprintf_stderr ''Registering AMI...'' w
                    in
                      (case ec2_apicall x key_id key_secret region s w0 of
                         (None, w1) \<Rightarrow> (None, w1)
                       | (Some resp, w1) \<Rightarrow>
                           (case xmlextract resp ''imageId'' of
                              None \<Rightarrow>
                                (None,
                                 warnp (''Could not find <imageId> in RegisterImage response: '' @
                                        resp) w1)
                            | Some ami \<Rightarrow> (Some ami, w1))))))"

definition copyimage ::
  "ext \<Rightarrow> string \<Rightarrow> string \<Rightarrow> string \<Rightarrow> string \<Rightarrow> string \<Rightarrow> world \<Rightarrow> string option \<times> world"
where
  "copyimage x region ami toregion key_id key_secret w =
     (let s = ''Action=CopyImage&'' @
              ''SourceRegion='' @ region @ ''&'' @
              ''SourceImageId='' @ ami @ ''&'' @
              ''Version=2014-09-01''
      in
        (case ec2_apicall x key_id key_secret toregion s w of
           (None, w1) \<Rightarrow> (None, w1)
         | (Some resp, w1) \<Rightarrow>
             (case xmlextract resp ''imageId'' of
                None \<Rightarrow>
                  (None, warnp (''Could not find <imageId> in CopyImage response: '' @ resp) w1)
              | Some toami \<Rightarrow> (Some toami, w1))))"

definition makepublic ::
  "ext \<Rightarrow> string \<Rightarrow> string \<Rightarrow> string \<Rightarrow> string \<Rightarrow> world \<Rightarrow> int \<times> world"
where
  "makepublic x region ami key_id key_secret w =
     (let s = ''Action=ModifyImageAttribute&'' @
              ''ImageId='' @ ami @ ''&'' @
              ''LaunchPermission.Add.1.Group=all&'' @
              ''Version=2014-09-01''
      in
        (case ec2_apicall_loop x key_id key_secret region s w of
           (None, w1) \<Rightarrow> (- 1, w1)
         | (Some resp, w1) \<Rightarrow>
             if strstr resp ''<return>true</return>'' = None
             then (- 1, warnp (''ModifyImageAttribute failed: '' @ resp) w1)
             else (0, w1)))"

definition makesnappublic ::
  "ext \<Rightarrow> string \<Rightarrow> string \<Rightarrow> string \<Rightarrow> string \<Rightarrow> world \<Rightarrow> int \<times> world"
where
  "makesnappublic x region snapshot key_id key_secret w =
     (let s = ''Action=ModifySnapshotAttribute&'' @
              ''SnapshotId='' @ snapshot @ ''&'' @
              ''CreateVolumePermission.Add.1.Group=all&'' @
              ''Version=2014-09-01''
      in
        (case ec2_apicall_loop x key_id key_secret region s w of
           (None, w1) \<Rightarrow> (- 1, w1)
         | (Some resp, w1) \<Rightarrow>
             if strstr resp ''<return>true</return>'' = None
             then (- 1, warnp (''ModifySnapshotAttribute failed: '' @ resp) w1)
             else (0, w1)))"

section \<open>Publishing the notification\<close>

text \<open>
  The region of the topic: \<^verbatim>\<open>strdup(&topicarn[12])\<close>, cut at its first colon.
  \<open>None\<close> is the null pointer of \<^verbatim>\<open>strdup\<close>, which the model never returns.  The
  program does not look at the length of the topic; for a topic of fewer than 12 bytes it
  reads what lies behind the string, and the model takes that to be NUL bytes, so that the
  region is empty and the call goes on all the same.
\<close>

definition sns_region :: "string \<Rightarrow> string option" where
  "sns_region topicarn =
     (let region = drop 12 topicarn
      in Some (take (strcspn region '':'') region))"

text \<open>The message: one entry for each of the \<open>nregions\<close> regions, with a comma
  after every entry but the last.\<close>

definition sns_message :: "string \<Rightarrow> string \<Rightarrow> string \<Rightarrow> nat \<Rightarrow> string list \<Rightarrow> string list \<Rightarrow> string"
where
  "sns_message releaseversion imageversion name nregions regions amis =
     ''{'' @ [LF] @ ''  '' @ DQ @ ''v1'' @ DQ @ '': {'' @ [LF] @
     ''    '' @ DQ @ ''ReleaseVersion'' @ DQ @ '': '' @ DQ @
     releaseversion @
     DQ @ '','' @ [LF] @ ''    '' @ DQ @ ''ImageVersion'' @ DQ @ '': '' @ DQ @
     imageversion @
     DQ @ '','' @ [LF] @ ''    '' @ DQ @ ''Regions'' @ DQ @ '': {'' @ [LF] @
     concat (map (\<lambda>i.
        ''      '' @ DQ @
        regions ! i @
        DQ @ '': ['' @ [LF] @ ''        {'' @ [LF] @
        ''          '' @ DQ @ ''Name'' @ DQ @ '': '' @ DQ @
        name @
        DQ @ '','' @ [LF] @
        ''          '' @ DQ @ ''ImageId'' @ DQ @ '': '' @ DQ @
        amis ! i @
        DQ @ [LF] @ ''        }'' @ [LF] @ ''      ]'' @
        (if i \<noteq> nregions - 1 then '','' else '''') @
        [LF]) [0 ..< nregions]) @
     ''    }'' @ [LF] @ ''  }'' @ [LF] @ ''}''"

text \<open>\<^verbatim>\<open>sns_publish\<close>; the two calls of \<^verbatim>\<open>encodeamp\<close> are taken to find their
  memory.\<close>

definition sns_publish ::
  "ext \<Rightarrow> string \<Rightarrow> string \<Rightarrow> string \<Rightarrow> string \<Rightarrow> string \<Rightarrow> string \<Rightarrow> nat \<Rightarrow> string list \<Rightarrow>
   string list \<Rightarrow> world \<Rightarrow> int \<times> world"
where
  "sns_publish x key_id key_secret topicarn releaseversion imageversion name nregions regions
     amis w =
     (case encodeamp True NUL (''New '' @ releaseversion @ '' AMIs'') of
        None \<Rightarrow> (- 1, w)
      | Some msg_subject \<Rightarrow>
          (case encodeamp True NUL topicarn of
             None \<Rightarrow> (- 1, w)
           | Some msg_topicarn \<Rightarrow>
               let msg_message =
                     cstr (sns_message releaseversion imageversion name nregions regions amis @
                           [NUL]);
                   s = ''Action=Publish&Message='' @ msg_message @ ''&'' @
                       ''Subject='' @ msg_subject @ ''&TopicArn='' @ msg_topicarn @
                       ''&Version=2010-03-31''
               in
                 (case sns_region topicarn of
                    None \<Rightarrow> (- 1, w)
                  | Some region \<Rightarrow>
                      (case aws_sign_sns_headers x key_id key_secret region s of
                         None \<Rightarrow> (- 1, warnp ''Failed to sign SNS POST request'' w)
                       | Some (x_amz_content_sha256, x_amz_date, authorization) \<Rightarrow>
                           let req =
                                 ''POST / HTTP/1.0'' @ CRLF @
                                 ''Host: sns.'' @ region @ ''.amazonaws.com'' @ CRLF @
                                 ''X-Amz-Date: '' @ x_amz_date @ CRLF @
                                 ''X-Amz-Content-SHA256: '' @ x_amz_content_sha256 @ CRLF @
                                 ''Authorization: '' @ authorization @ CRLF @
                                 ''Content-Length: '' @ show_nat (length s) @ CRLF @
                                 ''Content-Type: application/x-www-form-urlencoded'' @ CRLF @
                                 ''Connection: close'' @ CRLF @
                                 CRLF @
                                 s;
                               host = ''sns.'' @ region @ ''.amazonaws.com''
                           in
                             (case sslreq host req 16384 w of
                                (Inl errstr, w') \<Rightarrow>
                                  (- 1, warnp (''SSL request failed: '' @ errstr) w')
                              | (Inr bytes, w') \<Rightarrow>
                                  let resp = cstr bytes in
                                  if length resp \<noteq> length bytes
                                  then (- 1, warnp ''NUL byte in SNS API response'' w')
                                  else if \<not> status_200 resp
                                  then (- 1,
                                        warnp (''SNS API request failed:'' @ [LF] @ resp @ [LF])
                                          w')
                                  else
                                    (case strstr resp (CRLF @ CRLF) of
                                       None \<Rightarrow>
                                         (- 1,
                                          warnp (''Bad SNS API response received:'' @ [LF] @
                                                 resp @ [LF]) w')
                                     | Some k \<Rightarrow>
                                         let body = drop (k + 4) resp in
                                         if strstr body ''<MessageId>'' = None
                                         then (- 1,
                                               warnp (''SNS API call failed?'' @ [LF] @ body @
                                                      [LF]) w')
                                         else (0, w')))))))"
section \<open>The program\<close>

text \<open>
  The flags are read off the front of the argument vector: as long as \<^verbatim>\<open>argv[1]\<close>
  is one of them, it is recorded and the vector is shifted by one.
\<close>

fun main_flags ::
  "string list \<Rightarrow> bool \<Rightarrow> bool \<Rightarrow> bool \<Rightarrow> bool \<Rightarrow> string \<Rightarrow>
   string list \<times> bool \<times> bool \<times> bool \<times> bool \<times> string"
where
  "main_flags (a0 # a1 # argv) public publicsnap sriov ena arch =
     (if a1 = ''--public'' then main_flags (a1 # argv) True publicsnap sriov ena arch
      else if a1 = ''--publicsnap'' then main_flags (a1 # argv) public True sriov ena arch
      else if a1 = ''--sriov'' then main_flags (a1 # argv) public publicsnap True ena arch
      else if a1 = ''--ena'' then main_flags (a1 # argv) public publicsnap sriov True arch
      else if a1 = ''--arm64'' then main_flags (a1 # argv) public publicsnap sriov ena ''arm64''
      else (a0 # a1 # argv, public, publicsnap, sriov, ena, arch))"
| "main_flags argv public publicsnap sriov ena arch =
     (argv, public, publicsnap, sriov, ena, arch)"

definition usage :: string where
  "usage =
     ''usage: bsdec2-image-upload [--public]'' @
     '' [--publicsnap] [--sriov] [--ena] [--arm64]'' @
     '' <disk image> <name> <description> <region> <bucket> <AWS keyfile>'' @
     '' [<topicarn> <releaseversion> <imageversion>]'' @ [LF]"

text \<open>
  The three loops over the regions.  The first one builds the array \<^verbatim>\<open>amis\<close>, whose
  allocation is taken to succeed; each stops the program with status 1 at the first
  failure, which is the result \<open>None\<close> or \<open>False\<close> here.
\<close>

fun main_copy ::
  "ext \<Rightarrow> string \<Rightarrow> string \<Rightarrow> string \<Rightarrow> string \<Rightarrow> string list \<Rightarrow> world \<Rightarrow>
   string list option \<times> world"
where
  "main_copy x region ami key_id key_secret [] w = (Some [], w)"
| "main_copy x region ami key_id key_secret (r # regions) w =
     (if r = region
      then (case main_copy x region ami key_id key_secret regions w of
              (None, w') \<Rightarrow> (None, w')
            | (Some amis, w') \<Rightarrow> (Some (ami # amis), w'))
      else
        (case copyimage x region ami r key_id key_secret (fprintf_stderr ('' '' @ r) w) of
           (None, w1) \<Rightarrow> (None, warnp (''Error copying AMI to region '' @ r) w1)
         | (Some toami, w1) \<Rightarrow>
             (case main_copy x region ami key_id key_secret regions w1 of
                (None, w') \<Rightarrow> (None, w')
              | (Some amis, w') \<Rightarrow> (Some (toami # amis), w'))))"

fun main_wait ::
  "ext \<Rightarrow> string \<Rightarrow> string \<Rightarrow> string \<Rightarrow> (string \<times> string) list \<Rightarrow> world \<Rightarrow> bool \<times> world"
where
  "main_wait x region key_id key_secret [] w = (True, w)"
| "main_wait x region key_id key_secret ((r, a) # copies) w =
     (if r = region then main_wait x region key_id key_secret copies w
      else
        (case waitforami x r a key_id key_secret
                (fprintf_stderr (''Waiting for AMI copying to '' @ r @ ''...'') w) of
           (rc, w1) \<Rightarrow>
             if rc \<noteq> 0 then (False, warnp ''Failure waiting for AMI'' w1)
             else main_wait x region key_id key_secret copies w1))"

fun main_makepublic ::
  "ext \<Rightarrow> string \<Rightarrow> string \<Rightarrow> (string \<times> string) list \<Rightarrow> world \<Rightarrow> bool \<times> world"
where
  "main_makepublic x key_id key_secret [] w = (True, w)"
| "main_makepublic x key_id key_secret ((r, a) # copies) w =
     (case makepublic x r a key_id key_secret w of
        (rc, w1) \<Rightarrow>
          if rc \<noteq> 0 then (False, warnp ''Error marking AMI as public'' w1)
          else main_makepublic x key_id key_secret copies w1)"

fun main_print :: "(string \<times> string) list \<Rightarrow> world \<Rightarrow> world" where
  "main_print [] w = w"
| "main_print ((r, a) # copies) w =
     main_print copies (printf (''Created AMI in '' @ r @ '' region: '' @ a @ [LF]) w)"

text \<open>
  From the registration of the image to the list of images on the standard output.
  \<open>Inl status\<close> is a call of \<^verbatim>\<open>exit(status)\<close>; \<open>Inr amis\<close> means that the
  program goes on to the notification.
\<close>

definition main_images ::
  "ext \<Rightarrow> bool \<Rightarrow> bool \<Rightarrow> bool \<Rightarrow> string \<Rightarrow> string \<Rightarrow> string \<Rightarrow> string \<Rightarrow> string \<Rightarrow> string \<Rightarrow>
   string list \<Rightarrow> string \<Rightarrow> world \<Rightarrow> (int + string list) \<times> world"
where
  "main_images x public sriov ena arch name desc region key_id key_secret regions snapshot w =
     (case registerimage x region snapshot name desc arch sriov ena key_id key_secret w of
        (None, w1) \<Rightarrow> (Inl 1, warnp ''Failure registering AMI'' w1)
      | (Some ami, w1) \<Rightarrow>
     (case waitforami x region ami key_id key_secret w1 of
        (rc, w2) \<Rightarrow>
     if rc \<noteq> 0 then (Inl 1, warnp ''Failure waiting for AMI'' w2)
     else if \<not> public
     then (Inl 0, printf (''Created AMI in '' @ region @ '' region: '' @ ami @ [LF]) w2)
     else
     (case main_copy x region ami key_id key_secret regions
             (fprintf_stderr ''Copying AMI to regions:'' w2) of
        (None, w3) \<Rightarrow> (Inl 1, w3)
      | (Some amis, w3) \<Rightarrow>
     (case main_wait x region key_id key_secret (zip regions amis)
             (fprintf_stderr (''.'' @ [LF]) w3) of
        (False, w4) \<Rightarrow> (Inl 1, w4)
      | (True, w4) \<Rightarrow>
     (case main_makepublic x key_id key_secret (zip regions amis)
             (fprintf_stderr ''Marking images as public...'' w4) of
        (False, w5) \<Rightarrow> (Inl 1, w5)
      | (True, w5) \<Rightarrow>
          (Inr amis, main_print (zip regions amis) (fprintf_stderr ('' done.'' @ [LF]) w5)))))))"

text \<open>
  Every stage before the notification, from the credentials on.  \<open>Inr\<close> carries what
  the notification needs of the variables of \<^verbatim>\<open>main\<close>: the keys, the regions and
  their images.
\<close>

definition main_stages ::
  "ext \<Rightarrow> bool \<Rightarrow> bool \<Rightarrow> bool \<Rightarrow> bool \<Rightarrow> string \<Rightarrow> string \<Rightarrow> string \<Rightarrow> string \<Rightarrow> string \<Rightarrow>
   string \<Rightarrow> string \<Rightarrow> world \<Rightarrow>
   (int + string \<times> string \<times> string list \<times> string list) \<times> world"
where
  "main_stages x public publicsnap sriov ena arch diskimg name desc region bucket keyfile w =
     (case readkeys keyfile w of
        (None, w1) \<Rightarrow> (Inl 1, warnp ''Cannot read AWS keys'' w1)
      | (Some (key_id, key_secret), w1) \<Rightarrow>
     (case getregionlist x key_id key_secret region w1 of
        (None, w2) \<Rightarrow> (Inl 1, warnp ''Failure getting list of AWS regions'' w2)
      | (Some regions, w2) \<Rightarrow>
     (case uploadvolume x diskimg region bucket key_id key_secret w2 of
        (None, w3) \<Rightarrow> (Inl 1, warnp ''Failure uploading disk image'' w3)
      | (Some (manifest, sz), w3) \<Rightarrow>
     (case importvolume x region bucket manifest sz key_id key_secret w3 of
        (None, w4) \<Rightarrow> (Inl 1, warnp ''Failure importing disk image'' w4)
      | (Some taskid, w4) \<Rightarrow>
     (case waitforimport x region taskid key_id key_secret w4 of
        (None, w5) \<Rightarrow> (Inl 1, warnp ''Failure waiting for EBS volume'' w5)
      | (Some volume, w5) \<Rightarrow>
     (case createsnapshot x region volume key_id key_secret w5 of
        (None, w6) \<Rightarrow> (Inl 1, warnp ''Failure creating snapshot'' w6)
      | (Some snapshot, w6) \<Rightarrow>
     (case waitforsnapshot x region snapshot key_id key_secret w6 of
        (rc, w7) \<Rightarrow>
     if rc \<noteq> 0 then (Inl 1, warnp ''Failure waiting for EBS snapshot'' w7)
     else
     (case deletevolume x region volume key_id key_secret w7 of
        (rc, w8) \<Rightarrow>
     if rc \<noteq> 0 then (Inl 1, warnp ''Failure deleting EBS volume'' w8)
     else
     (case (if publicsnap
            then (case makesnappublic x region snapshot key_id key_secret
                         (fprintf_stderr
                            (''Marking '' @ snapshot @ '' in '' @ region @ '' as public...'') w8) of
                    (rc, w9) \<Rightarrow>
                      if rc \<noteq> 0 then (False, warnp ''Error marking EBS snapshot as public'' w9)
                      else (True, fprintf_stderr ('' done.'' @ [LF]) w9))
            else (True, w8)) of
        (False, w9) \<Rightarrow> (Inl 1, w9)
      | (True, w9) \<Rightarrow>
     (case main_images x public sriov ena arch name desc region key_id key_secret regions
             snapshot w9 of
        (Inl status, w10) \<Rightarrow> (Inl status, w10)
      | (Inr amis, w10) \<Rightarrow> (Inr (key_id, key_secret, regions, amis), w10)))))))))))"

text \<open>\<^verbatim>\<open>main\<close>: the exit status of the program and the world it leaves.\<close>

definition main :: "ext \<Rightarrow> string list \<Rightarrow> world \<Rightarrow> int \<times> world" where
  "main x argv0 w =
     (case main_flags argv0 False False False False ''x86_64'' of
        (argv, public, publicsnap, sriov, ena, arch) \<Rightarrow>
          if length argv \<noteq> 7 \<and> length argv \<noteq> 10 then (1, fprintf_stderr usage w)
          else
            let diskimg = argv ! 1;
                name = argv ! 2;
                desc = argv ! 3;
                region = argv ! 4;
                bucket = argv ! 5;
                keyfile = argv ! 6;
                topic = (if length argv = 10 then Some (argv ! 7, argv ! 8, argv ! 9) else None)
            in
              (case main_stages x public publicsnap sriov ena arch diskimg name desc region
                      bucket keyfile w of
                 (Inl status, w1) \<Rightarrow> (status, w1)
               | (Inr (key_id, key_secret, regions, amis), w1) \<Rightarrow>
                   (case topic of
                      None \<Rightarrow> (0, w1)
                    | Some (topicarn, releaseversion, imageversion) \<Rightarrow>
                        (case sns_publish x key_id key_secret topicarn releaseversion
                                imageversion name (length regions) regions amis w1 of
                           (rc, w2) \<Rightarrow>
                             if rc \<noteq> 0 then (0, warnp ''Failed to send SNS notification'' w2)
                             else (0, w2)))))"
text \<open>A sample run of the whole program: the flag \<^verbatim>\<open>--public\<close>, a topic, a
  four-byte disk image, one region, and a service that answers every request at once;
  the answer to the notification carries an error instead of a message id.\<close>

definition demo_keyfile :: "char list" where
  "demo_keyfile = ''ACCESS_KEY_ID=AKID'' @ [LF] @ ''ACCESS_KEY_SECRET=secret'' @ [LF]"

definition demo_replies :: "(string + char list) list" where
  "demo_replies =
     [ok_reply ''<regionInfo><item><regionName>us-west-2</regionName></item></regionInfo>'',
      ok_reply '''',
      ok_reply '''',
      ok_reply ''<conversionTaskId>import-vol-1</conversionTaskId>'',
      ok_reply completed_task,
      ok_reply ''<snapshotId>snap-1</snapshotId>'',
      ok_reply ''<status>completed</status>'',
      ok_reply ''<return>true</return>'',
      ok_reply ''<imageId>ami-1</imageId>'',
      ok_reply ''<imageState>available</imageState>'',
      ok_reply ''<return>true</return>'',
      ok_reply ''<Error>AuthorizationError</Error>'']"

definition demo_argv :: "string list" where
  "demo_argv =
     [''bsdec2-image-upload'', ''--public'', ''disk.img'', ''FreeBSD'', ''An image'',
      ''us-west-2'', ''bucket'', ''keys'', ''arn:aws:sns:us-east-1:782442783595:topic'',
      ''12.0-RELEASE'', ''12.0'']"

definition demo_start :: world where
  "demo_start =
     \<lparr>replies = demo_replies, trace = [],
      files = (\<lambda>f. if f = ''keys'' then Some demo_keyfile
                    else if f = ''disk.img'' then Some ''boot'' else None)\<rparr>"

section \<open>Properties of the ampersand escaping\<close>

lemma encodeamp_len_eq:
  "encodeamp_len s len = len + length (amp_escaped s)"
  by (induction s arbitrary: len) (simp_all add: amp_escaped_def)

lemma amp_escaped_Cons:
  "amp_escaped (c # cs) = (if c = CHR ''&'' then ''&amp;'' else [c]) @ amp_escaped cs"
  by (simp add: amp_escaped_def)

lemma memcpy_fits:
  "j + length src \<le> length t \<Longrightarrow>
   memcpy t j src = Some (take j t @ src @ drop (j + length src) t)"
  by (simp add: memcpy_def)

lemma encodeamp_copy_Cons:
  "encodeamp_copy (c # cs) t j =
     (case memcpy t j (if c = CHR ''&'' then ''&amp;'' else [c]) of
        None \<Rightarrow> None
      | Some t' \<Rightarrow>
          encodeamp_copy cs t' (j + length (if c = CHR ''&'' then ''&amp;'' else [c])))"
proof -
  have "j + 5 = j + length ''&amp;''" and "j + 1 = j + length [c]"
    by simp_all
  then show ?thesis
    by (simp only: encodeamp_copy.simps if_distrib [of "\<lambda>x. j + length x"] if_distrib [of "memcpy t j"]
        if_distrib [of "\<lambda>x. case_option None _ x"] split: if_split) simp
qed

lemma encodeamp_copy_eq:
  "j + length (amp_escaped s) \<le> length t \<Longrightarrow>
   encodeamp_copy s t j =
     Some (take j t @ amp_escaped s @ drop (j + length (amp_escaped s)) t,
           j + length (amp_escaped s))"
proof (induction s arbitrary: t j)
  case Nil
  then show ?case by (simp add: amp_escaped_def)
next
  case (Cons c cs)
  define e where "e = (if c = CHR ''&'' then ''&amp;'' else [c])"
  define r where "r = amp_escaped cs"
  have esc: "amp_escaped (c # cs) = e @ r"
    by (simp add: amp_escaped_Cons e_def r_def)
  from Cons.prems have fit: "j + length e + length r \<le> length t"
    by (simp add: esc)
  define t' where "t' = take j t @ e @ drop (j + length e) t"
  have m: "memcpy t j e = Some t'"
    using fit by (simp add: memcpy_fits t'_def)
  have len: "length t' = length t"
    using fit by (simp add: t'_def)
  have tk: "take (j + length e) t' = take j t @ e"
    using fit by (simp add: t'_def)
  have dr: "drop (j + length e + length r) t' = drop (j + length e + length r) t"
    using fit by (simp add: t'_def add.commute add.left_commute)
  have "encodeamp_copy (c # cs) t j = encodeamp_copy cs t' (j + length e)"
    unfolding encodeamp_copy_Cons e_def [symmetric] using m by simp
  also have "\<dots> = Some (take (j + length e) t' @ r @ drop (j + length e + length r) t',
                        j + length e + length r)"
    using Cons.IH [of "j + length e" t'] fit len by (simp add: r_def)
  finally show ?case
    using tk dr esc by (simp add: add.assoc)
qed

lemma NUL_notin_amp_escaped:
  "NUL \<notin> set s \<Longrightarrow> NUL \<notin> set (amp_escaped s)"
  by (induction s) (auto simp: amp_escaped_def)

lemma cstr_append_NUL:
  "NUL \<notin> set s \<Longrightarrow> cstr (s @ NUL # rest) = s"
  by (auto simp add: cstr_def takeWhile_tail)

lemma encodeamp_eq:
  assumes "NUL \<notin> set s"
  shows "encodeamp True junk s = Some (amp_escaped s)"
proof -
  let ?e = "amp_escaped s"
  let ?buf = "replicate (length ?e + 1) junk"
  have copy: "encodeamp_copy s ?buf 0 = Some (?e @ drop (length ?e) ?buf, length ?e)"
    using encodeamp_copy_eq [of 0 s ?buf] by simp
  have fin: "memcpy (?e @ drop (length ?e) ?buf) (length ?e) [NUL] = Some (?e @ [NUL])"
    by (simp add: memcpy_def)
  have "cstr (?e @ [NUL]) = ?e"
    using cstr_append_NUL [OF NUL_notin_amp_escaped [OF assms], of "[]"] by simp
  then show ?thesis
    using copy fin by (simp add: encodeamp_def encodeamp_len_eq del: replicate_Suc)
qed

lemma length_amp_escaped:
  "length (amp_escaped s) = length s + 4 * count_list s (CHR ''&'')"
  by (induction s) (simp_all add: amp_escaped_def)

lemma amp_escaped_followed:
  "i < length (amp_escaped s) \<Longrightarrow> amp_escaped s ! i = CHR ''&'' \<Longrightarrow>
   take 4 (drop (Suc i) (amp_escaped s)) = ''amp;''"
proof (induction s arbitrary: i)
  case Nil
  then show ?case by (simp add: amp_escaped_def)
next
  case (Cons c cs)
  show ?case
  proof (cases "c = CHR ''&''")
    case True
    then have esc: "amp_escaped (c # cs) = ''&amp;'' @ amp_escaped cs"
      by (simp add: amp_escaped_def)
    show ?thesis
    proof (cases "i < 5")
      case True
      then consider "i = 0" | "i = 1" | "i = 2" | "i = 3" | "i = 4" by linarith
      then show ?thesis
        using Cons.prems(2) esc by cases simp_all
    next
      case False
      then obtain k where k: "i = 5 + k" by (metis le_add_diff_inverse not_less)
      have "k < length (amp_escaped cs)" "amp_escaped cs ! k = CHR ''&''"
        using Cons.prems esc k by (simp_all add: nth_append)
      then have "take 4 (drop (Suc k) (amp_escaped cs)) = ''amp;''"
        by (rule Cons.IH)
      moreover have "drop (Suc i) (amp_escaped (c # cs)) = drop (Suc k) (amp_escaped cs)"
        unfolding esc k by (simp add: drop_Cons')
      ultimately show ?thesis by simp
    qed
  next
    case False
    then have esc: "amp_escaped (c # cs) = c # amp_escaped cs"
      by (simp add: amp_escaped_def)
    show ?thesis
    proof (cases i)
      case 0
      then show ?thesis using Cons.prems(2) esc False by simp
    next
      case (Suc k)
      have "k < length (amp_escaped cs)" "amp_escaped cs ! k = CHR ''&''"
        using Cons.prems esc Suc by simp_all
      then have "take 4 (drop (Suc k) (amp_escaped cs)) = ''amp;''"
        by (rule Cons.IH)
      then show ?thesis
        using esc Suc by simp
    qed
  qed
qed

text \<open>
  Claim C5.  For every C string \<open>s\<close>, when the allocation succeeds \<^verbatim>\<open>encodeamp\<close>
  returns a string \<open>t\<close> that is \<open>s\<close> with every \<^verbatim>\<open>&\<close> replaced by
  \<^verbatim>\<open>&amp;\<close> and every other byte kept in place and in order; \<open>t\<close> is longer than
  \<open>s\<close> by exactly 4 bytes for each \<^verbatim>\<open>&\<close> of \<open>s\<close>; and every \<^verbatim>\<open>&\<close> of
  \<open>t\<close> is immediately followed by the text \<^verbatim>\<open>amp;\<close>.  The copy never writes
  outside the allocated buffer, whatever the fresh memory held.
\<close>

theorem encodeamp_escapes:
  assumes "NUL \<notin> set s"
  shows "\<exists>t. encodeamp True junk s = Some t \<and>
             t = amp_escaped s \<and>
             length t = length s + 4 * count_list s (CHR ''&'') \<and>
             (\<forall>i < length t. t ! i = CHR ''&'' \<longrightarrow> take 4 (drop (Suc i) t) = ''amp;'')"
  using encodeamp_eq [OF assms] length_amp_escaped amp_escaped_followed by simp

theorem encodeamp_escapes_witness:
  "\<exists>t. encodeamp True (CHR ''x'') ''k=1&sig=a&b'' = Some t \<and>
       t = ''k=1&amp;sig=a&amp;b'' \<and> length t = 11 + 4 * 2 \<and>
       take 4 (drop (Suc 3) t) = ''amp;''"
  using encodeamp_escapes [of "''k=1&sig=a&b''" "CHR ''x''"]
  by (simp add: amp_escaped_def)

section \<open>Properties of the storage endpoint\<close>

lemma sslreq_trace:
  "sslreq host req n w = (r, w') \<Longrightarrow> trace w' = trace w @ [Sent host req]"
  by (auto simp: sslreq_def split: list.splits sum.splits)

lemma s3_put_events:
  "s3_put x key_id key_secret region bucket path buf w = (r, w') \<Longrightarrow>
   \<exists>evs. trace w' = trace w @ evs \<and>
         (\<forall>e \<in> set evs. \<forall>h. sent_host e = Some h \<longrightarrow> h = s3_endpoint region) \<and>
         length (filter (\<lambda>e. sent_host e \<noteq> None) evs) \<le> 1"
  by (auto simp: s3_put_def warnp_def Let_def dest!: sslreq_trace
      split: option.splits prod.splits sum.splits if_splits)

lemma s3_put_sends:
  "s3_put x key_id key_secret region bucket path buf w = (r, w') \<Longrightarrow>
   aws_sign_s3_headers x key_id key_secret region ''PUT'' bucket path buf \<noteq> None \<Longrightarrow>
   \<exists>req. Sent (s3_endpoint region) req \<in> set (events_since w w')"
  by (auto simp: s3_put_def warnp_def Let_def events_since_def dest!: sslreq_trace
      split: option.splits prod.splits sum.splits if_splits)

lemma s3_endpoint_cases:
  "s3_endpoint region = ''s3.amazonaws.com'' \<longleftrightarrow> region = ''us-east-1''"
proof
  assume a: "s3_endpoint region = ''s3.amazonaws.com''"
  show "region = ''us-east-1''"
  proof (rule ccontr)
    assume "region \<noteq> ''us-east-1''"
    with a have eq: "''s3.'' @ region @ ''.amazonaws.com'' = ''s3.amazonaws.com''"
      by (simp add: s3_endpoint_def)
    then have "length (''s3.'' @ region @ ''.amazonaws.com'') = length ''s3.amazonaws.com''"
      by (rule arg_cong)
    moreover have "region = [] \<Longrightarrow> False"
      using eq by simp
    ultimately show False by (cases region) simp_all
  qed
qed (simp add: s3_endpoint_def)

text \<open>
  Claim C9.  Every request that a storage PUT hands to the transport goes to the host
  \<^verbatim>\<open>s3.<region>.amazonaws.com\<close> when the region is not \<^verbatim>\<open>us-east-1\<close> and to
  \<^verbatim>\<open>s3.amazonaws.com\<close> when it is; a PUT whose request could be signed does send a
  request; and the host is the non-regionalized \<^verbatim>\<open>s3.amazonaws.com\<close> for no region
  other than \<^verbatim>\<open>us-east-1\<close>.
\<close>

theorem s3_put_host:
  assumes "s3_put x key_id key_secret region bucket path buf w = (r, w')"
  shows "(\<forall>e \<in> set (events_since w w'). \<forall>h. sent_host e = Some h \<longrightarrow>
            h = (if region = ''us-east-1'' then ''s3.amazonaws.com''
                 else ''s3.'' @ region @ ''.amazonaws.com'')) \<and>
         (aws_sign_s3_headers x key_id key_secret region ''PUT'' bucket path buf \<noteq> None \<longrightarrow>
            (\<exists>e \<in> set (events_since w w'). sent_host e \<noteq> None)) \<and>
         (s3_endpoint region = ''s3.amazonaws.com'' \<longleftrightarrow> region = ''us-east-1'')"
proof -
  from s3_put_events [OF assms] obtain evs where
    evs: "trace w' = trace w @ evs"
      "\<forall>e \<in> set evs. \<forall>h. sent_host e = Some h \<longrightarrow> h = s3_endpoint region"
    by blast
  have since: "events_since w w' = evs"
    using evs(1) by (simp add: events_since_def)
  have "\<forall>e \<in> set (events_since w w'). \<forall>h. sent_host e = Some h \<longrightarrow>
            h = (if region = ''us-east-1'' then ''s3.amazonaws.com''
                 else ''s3.'' @ region @ ''.amazonaws.com'')"
    using evs(2) since by (auto simp: s3_endpoint_def)
  moreover have "aws_sign_s3_headers x key_id key_secret region ''PUT'' bucket path buf \<noteq> None \<longrightarrow>
            (\<exists>e \<in> set (events_since w w'). sent_host e \<noteq> None)"
    using s3_put_sends [OF assms] by force
  ultimately show ?thesis
    using s3_endpoint_cases by blast
qed

theorem s3_put_host_witness:
  "\<exists>w'. s3_put demo_ext ''AKID'' ''secret'' ''eu-west-1'' ''bkt'' ''/n/part0'' ''data''
           (demo_world [ok_reply '''']) = (0, w') \<and>
        map sent_host (events_since (demo_world [ok_reply '''']) w') =
          [Some ''s3.eu-west-1.amazonaws.com'']"
proof -
  obtain r w' where run:
    "s3_put demo_ext ''AKID'' ''secret'' ''eu-west-1'' ''bkt'' ''/n/part0'' ''data''
       (demo_world [ok_reply '''']) = (r, w')"
    by (cases "s3_put demo_ext ''AKID'' ''secret'' ''eu-west-1'' ''bkt'' ''/n/part0'' ''data''
       (demo_world [ok_reply ''''])")
  have hosts: "\<forall>e \<in> set (events_since (demo_world [ok_reply '''']) w'). \<forall>h. sent_host e = Some h \<longrightarrow>
      h = ''s3.eu-west-1.amazonaws.com''"
    using s3_put_host [OF run] by simp
  have shape: "r = 0 \<and> (\<exists>req. events_since (demo_world [ok_reply '''']) w' = [Sent ''s3.eu-west-1.amazonaws.com'' req])"
    using run
    by (auto simp: s3_put_def demo_ext_def demo_world_def ok_reply_def sslreq_def Let_def
        s3_endpoint_def status_200_def strcspn_def cstr_def events_since_def emit_def)
  then show ?thesis using run hosts by auto
qed

section \<open>Properties of the retry loops\<close>

lemma bounded_retry_None:
  "bounded_retry a ok rep n i w = (None, w') \<longleftrightarrow> failures a ok rep n i w = Some w'"
  by (induction n arbitrary: i w) (auto split: prod.splits)

lemma bounded_retry_Some:
  "bounded_retry a ok rep n i w = (Some r, w') \<longleftrightarrow>
   ok r \<and> (\<exists>k<n. \<exists>w1. failures a ok rep k i w = Some w1 \<and> a w1 = (r, w'))"
proof (induction n arbitrary: i w)
  case 0
  then show ?case by simp
next
  case (Suc n)
  obtain r1 w1 where p: "a w = (r1, w1)" by (cases "a w")
  show ?case
    unfolding Ex_less_Suc2 using p by (cases "ok r1") (auto simp: Suc.IH)
qed

lemma bounded_retry_requests:
  assumes step: "\<And>w r w'. a w = (r, w') \<Longrightarrow> length (requests w') \<le> length (requests w) + 1"
    and rep: "\<And>i w. requests (rep i w) = requests w"
  shows "bounded_retry a ok rep n i w = (r, w') \<Longrightarrow>
         length (requests w') \<le> length (requests w) + n"
proof (induction n arbitrary: i w)
  case 0
  then show ?case by simp
next
  case (Suc n)
  obtain r1 w1 where p: "a w = (r1, w1)" by (cases "a w")
  show ?case
  proof (cases "ok r1")
    case True
    with Suc.prems p step [OF p] show ?thesis by simp
  next
    case False
    with Suc.prems p
    have "bounded_retry a ok rep n (i + 1) (rep (i + 1) w1) = (r, w')" by simp
    from Suc.IH [OF this] rep step [OF p] show ?thesis by simp
  qed
qed

lemma s3_put_loop_from_eq:
  "i + n = 10 \<Longrightarrow>
   s3_put_loop_from i x key_id key_secret region bucket path buf w =
   (case bounded_retry (s3_put x key_id key_secret region bucket path buf) (\<lambda>r. r = 0)
           (\<lambda>j. s3_put_failed j path) n i w of
      (None, w') \<Rightarrow> (- 1, w')
    | (Some r, w') \<Rightarrow> (0, w'))"
proof (induction n arbitrary: i w)
  case 0
  then show ?case by (simp add: s3_put_loop_from.simps)
next
  case (Suc n)
  then have "i < 10" "i + 1 + n = 10" by simp_all
  then show ?case
    by (subst s3_put_loop_from.simps) (simp add: Suc.IH split: prod.splits)
qed

lemma ec2_apicall_loop_from_eq:
  "i + n = 10 \<Longrightarrow>
   ec2_apicall_loop_from i x key_id key_secret region s w =
   (case bounded_retry (ec2_apicall x key_id key_secret region s) (\<lambda>body. body \<noteq> None)
           ec2_apicall_failed n i w of
      (None, w') \<Rightarrow> (None, w')
    | (Some body, w') \<Rightarrow> (body, w'))"
proof (induction n arbitrary: i w)
  case 0
  then show ?case by (simp add: ec2_apicall_loop_from.simps)
next
  case (Suc n)
  then have "i < 10" "i + 1 + n = 10" by simp_all
  then show ?case
    by (subst ec2_apicall_loop_from.simps) (simp add: Suc.IH split: prod.splits)
qed

lemma requests_emit:
  "requests (emit e w) = requests w @ (if sent_host e \<noteq> None then [e] else [])"
  by (simp add: requests_def)

lemma sslreq_requests:
  "sslreq host req n w = (r, w') \<Longrightarrow> requests w' = requests w @ [Sent host req]"
  by (drule sslreq_trace) (simp add: requests_def)

lemma s3_put_requests:
  "s3_put x key_id key_secret region bucket path buf w = (r, w') \<Longrightarrow>
   length (requests w') \<le> length (requests w) + 1"
  by (auto simp: s3_put_def warnp_def Let_def requests_emit dest!: sslreq_requests
      split: option.splits prod.splits sum.splits if_splits)

lemma ec2_apicall_requests:
  "ec2_apicall x key_id key_secret region s w = (r, w') \<Longrightarrow>
   length (requests w') \<le> length (requests w) + 1"
  by (auto simp: ec2_apicall_def warnp_def Let_def requests_emit dest!: sslreq_requests
      split: option.splits prod.splits sum.splits if_splits)

lemma s3_put_loop_requests:
  "s3_put_loop x key_id key_secret region bucket path buf w = (r, w') \<Longrightarrow>
   length (requests w') \<le> length (requests w) + 10"
proof -
  assume run: "s3_put_loop x key_id key_secret region bucket path buf w = (r, w')"
  obtain r0 where
    "bounded_retry (s3_put x key_id key_secret region bucket path buf) (\<lambda>r. r = 0)
       (\<lambda>j. s3_put_failed j path) 10 0 w = (r0, w')"
    using run s3_put_loop_from_eq [of 0 10 x key_id key_secret region bucket path buf w]
    by (auto simp: s3_put_loop_def split: prod.splits option.splits)
  then show ?thesis
    by (rule bounded_retry_requests [rotated 2])
       (use s3_put_requests in \<open>auto simp: s3_put_failed_def fprintf_stderr_def requests_emit\<close>)
qed

lemma ec2_apicall_loop_requests:
  "ec2_apicall_loop x key_id key_secret region s w = (r, w') \<Longrightarrow>
   length (requests w') \<le> length (requests w) + 10"
proof -
  assume run: "ec2_apicall_loop x key_id key_secret region s w = (r, w')"
  obtain r0 where
    "bounded_retry (ec2_apicall x key_id key_secret region s) (\<lambda>body. body \<noteq> None)
       ec2_apicall_failed 10 0 w = (r0, w')"
    using run ec2_apicall_loop_from_eq [of 0 10 x key_id key_secret region s w]
    by (auto simp: ec2_apicall_loop_def split: prod.splits option.splits)
  then show ?thesis
    by (rule bounded_retry_requests [rotated 2])
       (use ec2_apicall_requests in \<open>auto simp: ec2_apicall_failed_def fprintf_stderr_def requests_emit\<close>)
qed

lemma s3_put_loop_result:
  "(s3_put_loop x key_id key_secret region bucket path buf w = (- 1, w') \<longleftrightarrow>
      failures (s3_put x key_id key_secret region bucket path buf) (\<lambda>r. r = 0)
        (\<lambda>j. s3_put_failed j path) 10 0 w = Some w') \<and>
   (s3_put_loop x key_id key_secret region bucket path buf w = (0, w') \<longleftrightarrow>
      (\<exists>k<10. \<exists>w1.
         failures (s3_put x key_id key_secret region bucket path buf) (\<lambda>r. r = 0)
           (\<lambda>j. s3_put_failed j path) k 0 w = Some w1 \<and>
         s3_put x key_id key_secret region bucket path buf w1 = (0, w')))"
proof -
  let ?a = "s3_put x key_id key_secret region bucket path buf"
  let ?b = "bounded_retry ?a (\<lambda>r. r = 0) (\<lambda>j. s3_put_failed j path) 10 0 w"
  have eq: "s3_put_loop x key_id key_secret region bucket path buf w =
            (case ?b of (None, w') \<Rightarrow> (- 1, w') | (Some r, w') \<Rightarrow> (0, w'))"
    using s3_put_loop_from_eq [of 0 10] by (simp add: s3_put_loop_def)
  have "s3_put_loop x key_id key_secret region bucket path buf w = (- 1, w') \<longleftrightarrow> ?b = (None, w')"
    unfolding eq by (auto split: prod.splits option.splits)
  moreover have "s3_put_loop x key_id key_secret region bucket path buf w = (0, w') \<longleftrightarrow>
                 (\<exists>r. ?b = (Some r, w'))"
    unfolding eq by (auto split: prod.splits option.splits)
  ultimately show ?thesis
    unfolding bounded_retry_None bounded_retry_Some by auto
qed

lemma ec2_apicall_loop_result:
  "(ec2_apicall_loop x key_id key_secret region s w = (None, w') \<longleftrightarrow>
      failures (ec2_apicall x key_id key_secret region s) (\<lambda>body. body \<noteq> None)
        ec2_apicall_failed 10 0 w = Some w') \<and>
   (ec2_apicall_loop x key_id key_secret region s w = (Some body, w') \<longleftrightarrow>
      (\<exists>k<10. \<exists>w1.
         failures (ec2_apicall x key_id key_secret region s) (\<lambda>body. body \<noteq> None)
           ec2_apicall_failed k 0 w = Some w1 \<and>
         ec2_apicall x key_id key_secret region s w1 = (Some body, w')))"
proof -
  let ?a = "ec2_apicall x key_id key_secret region s"
  let ?b = "bounded_retry ?a (\<lambda>body. body \<noteq> None) ec2_apicall_failed 10 0 w"
  have eq: "ec2_apicall_loop x key_id key_secret region s w =
            (case ?b of (None, w') \<Rightarrow> (None, w') | (Some body, w') \<Rightarrow> (body, w'))"
    using ec2_apicall_loop_from_eq [of 0 10] by (simp add: ec2_apicall_loop_def)
  have ok: "?b = (Some r, w'') \<Longrightarrow> r \<noteq> None" for r w''
    unfolding bounded_retry_Some by simp
  have "ec2_apicall_loop x key_id key_secret region s w = (None, w') \<longleftrightarrow> ?b = (None, w')"
    unfolding eq using ok by (auto split: prod.splits option.splits)
  moreover have "ec2_apicall_loop x key_id key_secret region s w = (Some body, w') \<longleftrightarrow>
                 ?b = (Some (Some body), w')"
    unfolding eq using ok by (auto split: prod.splits option.splits)
  ultimately show ?thesis
    unfolding bounded_retry_None bounded_retry_Some by auto
qed

text \<open>
  Claim C2.  Both retry loops, \<^verbatim>\<open>s3_put_loop\<close> and \<^verbatim>\<open>ec2_apicall_loop\<close>, make at
  most 10 attempts: the loop fails exactly when 10 attempts in a row, each started in the
  world its predecessor left, all fail, and its effect is then that of these 10 attempts;
  it succeeds exactly when for some \<open>k < 10\<close> the first \<open>k\<close> attempts fail and the next
  one succeeds, and it then returns what that attempt returned, in the world that attempt
  left, so nothing is attempted after a success.  In either case at most 10 requests go out
  on the wire, and \<^verbatim>\<open>s3_put_loop\<close> returns 0 or -1.
\<close>

theorem retry_loops_bounded:
  "(s3_put_loop x key_id key_secret region bucket path buf w = (- 1, w') \<longleftrightarrow>
      failures (s3_put x key_id key_secret region bucket path buf) (\<lambda>r. r = 0)
        (\<lambda>j. s3_put_failed j path) 10 0 w = Some w') \<and>
   (s3_put_loop x key_id key_secret region bucket path buf w = (0, w') \<longleftrightarrow>
      (\<exists>k<10. \<exists>w1.
         failures (s3_put x key_id key_secret region bucket path buf) (\<lambda>r. r = 0)
           (\<lambda>j. s3_put_failed j path) k 0 w = Some w1 \<and>
         s3_put x key_id key_secret region bucket path buf w1 = (0, w'))) \<and>
   fst (s3_put_loop x key_id key_secret region bucket path buf w) \<in> {0, - 1} \<and>
   length (requests (snd (s3_put_loop x key_id key_secret region bucket path buf w)))
     \<le> length (requests w) + 10 \<and>
   (ec2_apicall_loop x key_id key_secret region s w = (None, w') \<longleftrightarrow>
      failures (ec2_apicall x key_id key_secret region s) (\<lambda>body. body \<noteq> None)
        ec2_apicall_failed 10 0 w = Some w') \<and>
   (ec2_apicall_loop x key_id key_secret region s w = (Some body, w') \<longleftrightarrow>
      (\<exists>k<10. \<exists>w1.
         failures (ec2_apicall x key_id key_secret region s) (\<lambda>body. body \<noteq> None)
           ec2_apicall_failed k 0 w = Some w1 \<and>
         ec2_apicall x key_id key_secret region s w1 = (Some body, w'))) \<and>
   length (requests (snd (ec2_apicall_loop x key_id key_secret region s w)))
     \<le> length (requests w) + 10"
proof -
  have "fst (s3_put_loop x key_id key_secret region bucket path buf w) \<in> {0, - 1}"
    using s3_put_loop_from_eq [of 0 10 x key_id key_secret region bucket path buf w]
    by (auto simp: s3_put_loop_def split: prod.splits option.splits)
  moreover have
    "length (requests (snd (s3_put_loop x key_id key_secret region bucket path buf w)))
       \<le> length (requests w) + 10"
    using s3_put_loop_requests [of x key_id key_secret region bucket path buf w]
    by (cases "s3_put_loop x key_id key_secret region bucket path buf w") simp
  moreover have
    "length (requests (snd (ec2_apicall_loop x key_id key_secret region s w)))
       \<le> length (requests w) + 10"
    using ec2_apicall_loop_requests [of x key_id key_secret region s w]
    by (cases "ec2_apicall_loop x key_id key_secret region s w") simp
  ultimately show ?thesis
    using s3_put_loop_result [of x key_id key_secret region bucket path buf w w']
      ec2_apicall_loop_result [of x key_id key_secret region s w w' body]
    by blast
qed
theorem retry_loops_bounded_witness:
  "\<exists>w'. s3_put_loop demo_ext ''AKID'' ''secret'' ''eu-west-1'' ''bkt'' ''/n/part0'' ''data''
           (demo_world [Inl ''timeout'', Inl ''timeout'', ok_reply '''']) = (0, w') \<and>
        length (requests w') = 3 \<and>
        (\<exists>k<10. \<exists>w1.
           failures (s3_put demo_ext ''AKID'' ''secret'' ''eu-west-1'' ''bkt'' ''/n/part0'' ''data'')
             (\<lambda>r. r = 0) (\<lambda>j. s3_put_failed j ''/n/part0'') k 0
             (demo_world [Inl ''timeout'', Inl ''timeout'', ok_reply '''']) = Some w1 \<and>
           s3_put demo_ext ''AKID'' ''secret'' ''eu-west-1'' ''bkt'' ''/n/part0'' ''data'' w1 = (0, w'))"
proof -
  let ?w = "demo_world [Inl ''timeout'', Inl ''timeout'', ok_reply '''']"
  obtain r w' where run:
    "s3_put_loop demo_ext ''AKID'' ''secret'' ''eu-west-1'' ''bkt'' ''/n/part0'' ''data'' ?w = (r, w')"
    by (cases "s3_put_loop demo_ext ''AKID'' ''secret'' ''eu-west-1'' ''bkt'' ''/n/part0'' ''data'' ?w")
  have val: "r = 0 \<and> length (requests w') = 3"
    using run
    by (auto simp: s3_put_loop_def s3_put_loop_from.simps s3_put_def demo_ext_def demo_world_def
        ok_reply_def sslreq_def Let_def s3_endpoint_def status_200_def strcspn_def cstr_def
        requests_def emit_def warnp_def s3_put_failed_def fprintf_stderr_def)
  then show ?thesis
    using run retry_loops_bounded [of demo_ext "''AKID''" "''secret''" "''eu-west-1''" "''bkt''"
        "''/n/part0''" "''data''" ?w w']
    by simp
qed

section \<open>Properties of the polling stages\<close>

lemma cstr_no_NUL: "NUL \<notin> set s \<Longrightarrow> cstr s = s"
  by (auto simp: cstr_def)

lemma strstr_append_found:
  "strstr s needle = Some k \<Longrightarrow> strstr (s @ t) needle = Some k"
proof (induction s arbitrary: k)
  case Nil
  then show ?case by (cases t) (simp_all split: if_splits)
next
  case (Cons c cs)
  show ?case
  proof (cases "prefix needle (c # cs)")
    case True
    then have "prefix needle ((c # cs) @ t)" by (rule prefix_prefix)
    with True Cons.prems show ?thesis by simp
  next
    case False
    with Cons.prems obtain j where j: "strstr cs needle = Some j" "k = Suc j" by auto
    from strstr_bound [OF j(1)] have "length needle \<le> length cs" by simp
    with False have "\<not> prefix needle ((c # cs) @ t)"
      by (metis append_eq_append_conv_if append_take_drop_id length_Cons le_SucI prefix_def
          prefixI)
    with j Cons.IH show ?thesis by simp
  qed
qed

lemma ok_reply_status:
  "status_200 (''HTTP/1.1 200 OK'' @ CRLF @ CRLF @ body)"
proof -
  have "strstr ''HTTP/1.1 200 OK'' '' 200 '' = Some 8" by simp
  then have "strstr (''HTTP/1.1 200 OK'' @ (CRLF @ CRLF @ body)) '' 200 '' = Some 8"
    by (rule strstr_append_found)
  then show ?thesis by (simp add: status_200_def strcspn_def)
qed

lemma ok_reply_body:
  "strstr (''HTTP/1.1 200 OK'' @ CRLF @ CRLF @ body) (CRLF @ CRLF) = Some 15"
proof -
  have "strstr (''HTTP/1.1 200 OK'' @ CRLF @ CRLF) (CRLF @ CRLF) = Some 15" by simp
  then have "strstr ((''HTTP/1.1 200 OK'' @ CRLF @ CRLF) @ body) (CRLF @ CRLF) = Some 15"
    by (rule strstr_append_found)
  then show ?thesis by simp
qed

lemma ec2_apicall_ok_reply:
  assumes sign: "aws_sign_ec2_headers x key_id key_secret region s \<noteq> None"
    and script: "replies w = ok_reply body # rest"
    and body: "NUL \<notin> set body" "length body \<le> 16365"
  shows "\<exists>req. ec2_apicall x key_id key_secret region s w =
           (Some body, emit (Sent (''ec2.'' @ region @ ''.amazonaws.com'') req) (w\<lparr>replies := rest\<rparr>))"
proof -
  define resp where "resp = ''HTTP/1.1 200 OK'' @ CRLF @ CRLF @ body"
  have r1: "cstr resp = resp"
    using body by (intro cstr_no_NUL) (simp add: resp_def)
  have r2: "take 16384 resp = resp"
    using body by (simp add: resp_def)
  have r3: "status_200 resp"
    unfolding resp_def by (rule ok_reply_status)
  have r4: "strstr resp (CRLF @ CRLF) = Some 15"
    unfolding resp_def by (rule ok_reply_body)
  have r5: "drop 19 resp = body"
    by (simp add: resp_def)
  have rep: "replies w = Inr resp # rest"
    using script by (simp add: ok_reply_def resp_def)
  obtain sha date auth where
    sg: "aws_sign_ec2_headers x key_id key_secret region s = Some (sha, date, auth)"
    using sign by (cases "aws_sign_ec2_headers x key_id key_secret region s") auto
  show ?thesis
    unfolding ec2_apicall_def sslreq_def Let_def
    using sg rep r1 r2 r3 r4 r5 by auto
qed

lemma ec2_apicall_loop_ok_reply:
  assumes sign: "aws_sign_ec2_headers x key_id key_secret region s \<noteq> None"
    and script: "replies w = ok_reply body # rest"
    and body: "NUL \<notin> set body" "length body \<le> 16365"
  shows "\<exists>req. ec2_apicall_loop x key_id key_secret region s w =
           (Some body, emit (Sent (''ec2.'' @ region @ ''.amazonaws.com'') req) (w\<lparr>replies := rest\<rparr>))"
proof -
  from ec2_apicall_ok_reply [OF assms] obtain req where
    "ec2_apicall x key_id key_secret region s w =
       (Some body, emit (Sent (''ec2.'' @ region @ ''.amazonaws.com'') req) (w\<lparr>replies := rest\<rparr>))"
    by blast
  then show ?thesis
    by (auto simp: ec2_apicall_loop_def ec2_apicall_loop_from.simps [of 0])
qed

lemma waitforsnapshot_step:
  assumes "ec2_apicall_loop x key_id key_secret region
             (''Action=DescribeSnapshots&'' @ ''SnapshotId.1='' @ snapshot @ ''&'' @
              ''Version=2014-09-01'') w = (Some resp, w1)"
    and "xmlextract resp ''status'' = Some status"
  shows "waitforsnapshot x region snapshot key_id key_secret w =
           (if status = ''completed'' then (0, fprintf_stderr ('' done.'' @ [LF]) w1)
            else if status = ''pending'' then
              waitforsnapshot x region snapshot key_id key_secret
                (sleep 10 (fprintf_stderr ''.'' w1))
            else (- 1, warnp (''Bad status from DescribeSnapshots: '' @ status) w1))"
  using assms by (subst waitforsnapshot.simps) (simp add: Let_def)

lemma waitforsnapshot_script_trace:
  assumes sign: "\<And>s. aws_sign_ec2_headers x key_id key_secret region s \<noteq> None"
    and final: "xmlextract final_body ''status'' = Some final" "final \<noteq> ''pending''"
  shows "replies w = map ok_reply (pend @ [final_body]) @ rest \<Longrightarrow>
         \<forall>b \<in> set pend. xmlextract b ''status'' = Some ''pending'' \<Longrightarrow>
         \<forall>b \<in> set (pend @ [final_body]). NUL \<notin> set b \<and> length b \<le> 16365 \<Longrightarrow>
         \<exists>w' evs.
           waitforsnapshot x region snapshot key_id key_secret w =
             ((if final = ''completed'' then 0 else - 1), w') \<and>
           replies w' = rest \<and>
           trace w' = trace w @ evs \<and>
           length (filter (\<lambda>e. sent_host e \<noteq> None) evs) = length pend + 1 \<and>
           filter (\<lambda>e. sent_host e = None) evs =
             concat (map (\<lambda>b. [Stderr ''.'', Sleep 10]) pend) @
             [if final = ''completed'' then Stderr ('' done.'' @ [LF])
              else Warn (''Bad status from DescribeSnapshots: '' @ final)]"
proof (induction pend arbitrary: w)
  case Nil
  let ?s = "''Action=DescribeSnapshots&'' @ ''SnapshotId.1='' @ snapshot @ ''&'' @ ''Version=2014-09-01''"
  from Nil have script: "replies w = ok_reply final_body # rest"
    and ok: "NUL \<notin> set final_body" "length final_body \<le> 16365" by simp_all
  from ec2_apicall_loop_ok_reply [OF sign script ok] obtain req where
    call: "ec2_apicall_loop x key_id key_secret region ?s w =
       (Some final_body, emit (Sent (''ec2.'' @ region @ ''.amazonaws.com'') req) (w\<lparr>replies := rest\<rparr>))"
    by blast
  show ?case
    unfolding waitforsnapshot_step [OF call final(1)] using final(2)
    by (simp add: fprintf_stderr_def warnp_def)
next
  case (Cons b pend)
  let ?s = "''Action=DescribeSnapshots&'' @ ''SnapshotId.1='' @ snapshot @ ''&'' @ ''Version=2014-09-01''"
  let ?rest = "map ok_reply (pend @ [final_body]) @ rest"
  from Cons.prems have script: "replies w = ok_reply b # ?rest"
    and ok: "NUL \<notin> set b" "length b \<le> 16365"
    and st: "xmlextract b ''status'' = Some ''pending''" by simp_all
  from ec2_apicall_loop_ok_reply [OF sign script ok] obtain req where
    call: "ec2_apicall_loop x key_id key_secret region ?s w =
       (Some b, emit (Sent (''ec2.'' @ region @ ''.amazonaws.com'') req) (w\<lparr>replies := ?rest\<rparr>))"
    by blast
  define w2 where "w2 = sleep 10 (fprintf_stderr ''.''
    (emit (Sent (''ec2.'' @ region @ ''.amazonaws.com'') req) (w\<lparr>replies := ?rest\<rparr>)))"
  have step: "waitforsnapshot x region snapshot key_id key_secret w =
              waitforsnapshot x region snapshot key_id key_secret w2"
    unfolding waitforsnapshot_step [OF call st] w2_def by simp
  have r2: "replies w2 = ?rest"
    and t2: "trace w2 = trace w @ [Sent (''ec2.'' @ region @ ''.amazonaws.com'') req, Stderr ''.'', Sleep 10]"
    by (simp_all add: w2_def sleep_def fprintf_stderr_def)
  from Cons.IH [OF r2] Cons.prems obtain w' evs where ih:
    "waitforsnapshot x region snapshot key_id key_secret w2 =
       ((if final = ''completed'' then 0 else - 1), w')"
    "replies w' = rest" "trace w' = trace w2 @ evs"
    "length (filter (\<lambda>e. sent_host e \<noteq> None) evs) = length pend + 1"
    "filter (\<lambda>e. sent_host e = None) evs =
       concat (map (\<lambda>b. [Stderr ''.'', Sleep 10]) pend) @
       [if final = ''completed'' then Stderr ('' done.'' @ [LF])
        else Warn (''Bad status from DescribeSnapshots: '' @ final)]"
    by auto
  show ?case
    apply (rule exI [of _ w'])
    apply (rule exI [of _ "[Sent (''ec2.'' @ region @ ''.amazonaws.com'') req, Stderr ''.'', Sleep 10] @ evs"])
    using step ih t2 by simp
qed


text \<open>
  Claim C6.  In \<^verbatim>\<open>waitforsnapshot\<close>, once a poll has obtained a response with a
  \<^verbatim>\<open><status>\<close> element: the status \<^verbatim>\<open>completed\<close> ends the stage with success;
  \<^verbatim>\<open>pending\<close> prints a dot, sleeps 10 seconds and polls again from there; any other
  status ends the stage with failure in the world the poll left, so no further request
  is made.  Consequently, when the service answers \<open>n\<close> polls with \<^verbatim>\<open>pending\<close> and
  the next one with another status, the stage makes exactly \<open>n + 1\<close> requests, prints
  exactly \<open>n\<close> dots each followed by a sleep of 10 seconds, then reports completion and
  returns 0 when that status is \<^verbatim>\<open>completed\<close>, and otherwise reports the bad status
  and returns -1; whatever the service would have answered later is left unasked.
\<close>

theorem waitforsnapshot_polls:
  "(\<forall>resp w1 status.
      ec2_apicall_loop x key_id key_secret region
        (''Action=DescribeSnapshots&'' @ ''SnapshotId.1='' @ snapshot @ ''&'' @
         ''Version=2014-09-01'') w = (Some resp, w1) \<and>
      xmlextract resp ''status'' = Some status \<longrightarrow>
      waitforsnapshot x region snapshot key_id key_secret w =
        (if status = ''completed'' then (0, fprintf_stderr ('' done.'' @ [LF]) w1)
         else if status = ''pending'' then
           waitforsnapshot x region snapshot key_id key_secret
             (sleep 10 (fprintf_stderr ''.'' w1))
         else (- 1, warnp (''Bad status from DescribeSnapshots: '' @ status) w1))) \<and>
   ((\<forall>s. aws_sign_ec2_headers x key_id key_secret region s \<noteq> None) \<and>
    replies w = map ok_reply (pend @ [final_body]) @ rest \<and>
    (\<forall>b \<in> set pend. xmlextract b ''status'' = Some ''pending'') \<and>
    (\<forall>b \<in> set (pend @ [final_body]). NUL \<notin> set b \<and> length b \<le> 16365) \<and>
    xmlextract final_body ''status'' = Some final \<and> final \<noteq> ''pending'' \<longrightarrow>
    (\<exists>w'. waitforsnapshot x region snapshot key_id key_secret w =
             ((if final = ''completed'' then 0 else - 1), w') \<and>
           replies w' = rest \<and>
           length (requests w') = length (requests w) + length pend + 1 \<and>
           filter (\<lambda>e. sent_host e = None) (events_since w w') =
             concat (map (\<lambda>b. [Stderr ''.'', Sleep 10]) pend) @
             [if final = ''completed'' then Stderr ('' done.'' @ [LF])
              else Warn (''Bad status from DescribeSnapshots: '' @ final)]))"
proof (intro conjI allI impI)
  fix resp w1 status
  assume "ec2_apicall_loop x key_id key_secret region
        (''Action=DescribeSnapshots&'' @ ''SnapshotId.1='' @ snapshot @ ''&'' @
         ''Version=2014-09-01'') w = (Some resp, w1) \<and>
      xmlextract resp ''status'' = Some status"
  then show "waitforsnapshot x region snapshot key_id key_secret w =
        (if status = ''completed'' then (0, fprintf_stderr ('' done.'' @ [LF]) w1)
         else if status = ''pending'' then
           waitforsnapshot x region snapshot key_id key_secret
             (sleep 10 (fprintf_stderr ''.'' w1))
         else (- 1, warnp (''Bad status from DescribeSnapshots: '' @ status) w1))"
    using waitforsnapshot_step by blast
next
  assume a: "(\<forall>s. aws_sign_ec2_headers x key_id key_secret region s \<noteq> None) \<and>
    replies w = map ok_reply (pend @ [final_body]) @ rest \<and>
    (\<forall>b \<in> set pend. xmlextract b ''status'' = Some ''pending'') \<and>
    (\<forall>b \<in> set (pend @ [final_body]). NUL \<notin> set b \<and> length b \<le> 16365) \<and>
    xmlextract final_body ''status'' = Some final \<and> final \<noteq> ''pending''"
  then have sign: "\<And>s. aws_sign_ec2_headers x key_id key_secret region s \<noteq> None"
    and final: "xmlextract final_body ''status'' = Some final" "final \<noteq> ''pending''"
    and script: "replies w = map ok_reply (pend @ [final_body]) @ rest"
    and pend: "\<forall>b \<in> set pend. xmlextract b ''status'' = Some ''pending''"
    and ok: "\<forall>b \<in> set (pend @ [final_body]). NUL \<notin> set b \<and> length b \<le> 16365"
    by blast+
  from waitforsnapshot_script_trace [OF sign final script pend ok, of snapshot]
  obtain w' evs where r:
    "waitforsnapshot x region snapshot key_id key_secret w =
       ((if final = ''completed'' then 0 else - 1), w')"
    "replies w' = rest" "trace w' = trace w @ evs"
    "length (filter (\<lambda>e. sent_host e \<noteq> None) evs) = length pend + 1"
    "filter (\<lambda>e. sent_host e = None) evs =
       concat (map (\<lambda>b. [Stderr ''.'', Sleep 10]) pend) @
       [if final = ''completed'' then Stderr ('' done.'' @ [LF])
        else Warn (''Bad status from DescribeSnapshots: '' @ final)]"
    by blast
  have "length (requests w') = length (requests w) + length pend + 1"
    using r(3,4) by (simp add: requests_def)
  moreover have "events_since w w' = evs"
    using r(3) by (simp add: events_since_def)
  ultimately show "\<exists>w'. waitforsnapshot x region snapshot key_id key_secret w =
             ((if final = ''completed'' then 0 else - 1), w') \<and>
           replies w' = rest \<and>
           length (requests w') = length (requests w) + length pend + 1 \<and>
           filter (\<lambda>e. sent_host e = None) (events_since w w') =
             concat (map (\<lambda>b. [Stderr ''.'', Sleep 10]) pend) @
             [if final = ''completed'' then Stderr ('' done.'' @ [LF])
              else Warn (''Bad status from DescribeSnapshots: '' @ final)]"
    using r(1,2,5) by auto
qed

lemma xmlextract_status_samples:
  "xmlextract ''<status>pending</status>'' ''status'' = Some ''pending''"
  "xmlextract ''<status>completed</status>'' ''status'' = Some ''completed''"
  "xmlextract ''<status>error</status>'' ''status'' = Some ''error''"
  by (simp_all add: xmlextract_def xmlextracts_def xmlextracts_loop.simps Let_def)

theorem waitforsnapshot_polls_witness:
  "(\<exists>w'. waitforsnapshot demo_ext ''us-west-2'' ''snap-1'' ''AKID'' ''secret''
            (demo_world (map ok_reply [''<status>pending</status>'', ''<status>pending</status>'',
               ''<status>completed</status>''])) = (0, w') \<and>
          replies w' = [] \<and> length (requests w') = 3 \<and>
          filter (\<lambda>e. sent_host e = None) (trace w') =
            [Stderr ''.'', Sleep 10, Stderr ''.'', Sleep 10, Stderr ('' done.'' @ [LF])]) \<and>
   (\<exists>w'. waitforsnapshot demo_ext ''us-west-2'' ''snap-1'' ''AKID'' ''secret''
            (demo_world (map ok_reply [''<status>pending</status>'', ''<status>error</status>'',
               ''<status>completed</status>''])) = (- 1, w') \<and>
          replies w' = [ok_reply ''<status>completed</status>''] \<and> length (requests w') = 2 \<and>
          filter (\<lambda>e. sent_host e = None) (trace w') =
            [Stderr ''.'', Sleep 10, Warn ''Bad status from DescribeSnapshots: error''])"
proof -
  have sign: "\<forall>s. aws_sign_ec2_headers demo_ext ''AKID'' ''secret'' ''us-west-2'' s \<noteq> None"
    by (simp add: demo_ext_def)
  have e: "events_since (demo_world rs) w' = trace w'" for rs w'
    by (simp add: events_since_def demo_world_def)
  have q: "requests (demo_world rs) = []" for rs
    by (simp add: requests_def demo_world_def)
  have rp: "replies (demo_world rs) = rs" for rs
    by (simp add: demo_world_def)
  have "\<exists>w'. waitforsnapshot demo_ext ''us-west-2'' ''snap-1'' ''AKID'' ''secret''
            (demo_world (map ok_reply [''<status>pending</status>'', ''<status>pending</status>'',
               ''<status>completed</status>''])) = (0, w') \<and>
          replies w' = [] \<and> length (requests w') = 3 \<and>
          filter (\<lambda>e. sent_host e = None) (trace w') =
            [Stderr ''.'', Sleep 10, Stderr ''.'', Sleep 10, Stderr ('' done.'' @ [LF])]"
    using waitforsnapshot_polls [of demo_ext "''AKID''" "''secret''" "''us-west-2''" "''snap-1''"
        "demo_world (map ok_reply [''<status>pending</status>'', ''<status>pending</status>'',
               ''<status>completed</status>''])"
        "[''<status>pending</status>'', ''<status>pending</status>'']"
        "''<status>completed</status>''" "[]" "''completed''"]
      sign xmlextract_status_samples
    by (simp add: e q rp numeral_3_eq_3 numeral_2_eq_2)
  moreover
  have "\<exists>w'. waitforsnapshot demo_ext ''us-west-2'' ''snap-1'' ''AKID'' ''secret''
            (demo_world (map ok_reply [''<status>pending</status>'', ''<status>error</status>'',
               ''<status>completed</status>''])) = (- 1, w') \<and>
          replies w' = [ok_reply ''<status>completed</status>''] \<and> length (requests w') = 2 \<and>
          filter (\<lambda>e. sent_host e = None) (trace w') =
            [Stderr ''.'', Sleep 10, Warn ''Bad status from DescribeSnapshots: error'']"
    using waitforsnapshot_polls [of demo_ext "''AKID''" "''secret''" "''us-west-2''" "''snap-1''"
        "demo_world (map ok_reply [''<status>pending</status>'', ''<status>error</status>'',
               ''<status>completed</status>''])"
        "[''<status>pending</status>'']"
        "''<status>error</status>''" "[ok_reply ''<status>completed</status>'']" "''error''"]
      sign xmlextract_status_samples
    by (simp add: e q rp numeral_3_eq_3 numeral_2_eq_2)
  ultimately show ?thesis by blast
qed

lemma waitforimport_loop_step:
  assumes "ec2_apicall_loop x key_id key_secret region
             (''Action=DescribeConversionTasks&'' @ ''ConversionTaskId.1='' @ taskid @ ''&'' @
              ''Version=2014-09-01'') w = (Some resp, w1)"
  shows "waitforimport_loop x region taskid key_id key_secret laststatus w =
     (case xmlextract resp ''volume'' of
        None \<Rightarrow>
          (None,
           warnp (''Could not find <volume> in DescribeConversionTasks response: '' @ resp) w1)
      | Some volume \<Rightarrow>
          (case (if strstr resp ''<state>active</state>'' = None
                 then xmlextract volume ''id'' else None) of
             Some volid \<Rightarrow> (Some volid, fprintf_stderr ('' done.'' @ [LF]) w1)
           | None \<Rightarrow>
               (case xmlextract resp ''statusMessage'' of
                  None \<Rightarrow>
                    (None,
                     warnp (''Could not find <statusMessage> in DescribeConversionTasks response: ''
                            @ resp) w1)
                | Some status \<Rightarrow>
                    (case printstatus ''Importing volume'' status laststatus w1 of
                       (laststatus', w2) \<Rightarrow>
                         waitforimport_loop x region taskid key_id key_secret laststatus'
                           (sleep 10 w2)))))"
  using assms by (subst waitforimport_loop.simps) (simp add: Let_def)

text \<open>
  Claim C3, as amended.  \<^verbatim>\<open>waitforimport\<close> never looks at the status a response
  reports other than through the marker \<^verbatim>\<open><state>active</state>\<close>.  Once a poll has
  obtained a response: if the response has no \<^verbatim>\<open><volume>\<close> element the stage fails;
  if it lacks the marker and its \<^verbatim>\<open><volume>\<close> element holds an \<^verbatim>\<open><id>\<close>, the stage
  ends with success and returns that id, whatever status the body reports; otherwise, if
  the response has no \<^verbatim>\<open><statusMessage>\<close> element the stage fails, and if it has one
  the message is reported, the stage sleeps 10 seconds and polls again.
\<close>

theorem waitforimport_poll:
  assumes "ec2_apicall_loop x key_id key_secret region
             (''Action=DescribeConversionTasks&'' @ ''ConversionTaskId.1='' @ taskid @ ''&'' @
              ''Version=2014-09-01'') w = (Some resp, w1)"
  shows
    "(xmlextract resp ''volume'' = None \<longrightarrow>
        fst (waitforimport_loop x region taskid key_id key_secret laststatus w) = None \<and>
        requests (snd (waitforimport_loop x region taskid key_id key_secret laststatus w)) =
          requests w1) \<and>
     (\<forall>volume volid.
        xmlextract resp ''volume'' = Some volume \<and>
        strstr resp ''<state>active</state>'' = None \<and>
        xmlextract volume ''id'' = Some volid \<longrightarrow>
        waitforimport_loop x region taskid key_id key_secret laststatus w =
          (Some volid, fprintf_stderr ('' done.'' @ [LF]) w1)) \<and>
     (\<forall>volume.
        xmlextract resp ''volume'' = Some volume \<and>
        (strstr resp ''<state>active</state>'' \<noteq> None \<or> xmlextract volume ''id'' = None) \<and>
        xmlextract resp ''statusMessage'' = None \<longrightarrow>
        fst (waitforimport_loop x region taskid key_id key_secret laststatus w) = None \<and>
        requests (snd (waitforimport_loop x region taskid key_id key_secret laststatus w)) =
          requests w1) \<and>
     (\<forall>volume status.
        xmlextract resp ''volume'' = Some volume \<and>
        (strstr resp ''<state>active</state>'' \<noteq> None \<or> xmlextract volume ''id'' = None) \<and>
        xmlextract resp ''statusMessage'' = Some status \<longrightarrow>
        waitforimport_loop x region taskid key_id key_secret laststatus w =
          waitforimport_loop x region taskid key_id key_secret
            (fst (printstatus ''Importing volume'' status laststatus w1))
            (sleep 10 (snd (printstatus ''Importing volume'' status laststatus w1))))"
  unfolding waitforimport_loop_step [OF assms]
  by (auto simp: warnp_def requests_def split: prod.splits)

lemma failed_task_extracts:
  "xmlextract failed_task_with_id ''volume'' = Some ''<size>1</size><id>vol-123</id>''"
  "xmlextract ''<size>1</size><id>vol-123</id>'' ''id'' = Some ''vol-123''"
  "strstr failed_task_with_id ''<state>active</state>'' = None"
  "strstr failed_task_with_id ''<state>cancelled</state>'' \<noteq> None"
  "xmlextract failed_task_without_id ''volume'' = Some ''<size>1</size>''"
  "xmlextract ''<size>1</size>'' ''id'' = None"
  "strstr failed_task_without_id ''<state>active</state>'' = None"
  "strstr failed_task_without_id ''<state>cancelled</state>'' \<noteq> None"
  "xmlextract failed_task_without_id ''statusMessage'' =
     Some ''ClientError: unsupported disk image''"
  "xmlextract completed_task ''volume'' = Some ''<size>1</size><id>vol-456</id>''"
  "xmlextract ''<size>1</size><id>vol-456</id>'' ''id'' = Some ''vol-456''"
  "strstr completed_task ''<state>active</state>'' = None"
  by (simp_all add: xmlextract_def xmlextracts_def xmlextracts_loop.simps Let_def
      failed_task_with_id_def failed_task_without_id_def completed_task_def)

lemma demo_poll:
  assumes "NUL \<notin> set body" "length body \<le> 16365"
  shows "\<exists>req. ec2_apicall_loop demo_ext ''AKID'' ''secret'' ''us-west-2'' s
           \<lparr>replies = ok_reply body # rest, trace = tr, files = fs\<rparr> =
         (Some body, \<lparr>replies = rest, trace = tr @ [Sent ''ec2.us-west-2.amazonaws.com'' req],
            files = fs\<rparr>)"
  using ec2_apicall_loop_ok_reply [of demo_ext "''AKID''" "''secret''" "''us-west-2''" s
      "\<lparr>replies = ok_reply body # rest, trace = tr, files = fs\<rparr>" body rest] assms
  by (simp add: demo_ext_def emit_def)

theorem waitforimport_error_status_counterexample:
  "fst (waitforimport demo_ext ''us-west-2'' ''import-vol-1'' ''AKID'' ''secret''
          (demo_world [ok_reply failed_task_with_id])) = Some ''vol-123'' \<and>
   strstr failed_task_with_id ''<state>cancelled</state>'' \<noteq> None \<and>
   (\<exists>w'. waitforimport demo_ext ''us-west-2'' ''import-vol-1'' ''AKID'' ''secret''
            (demo_world [ok_reply failed_task_without_id, ok_reply completed_task]) =
            (Some ''vol-456'', w') \<and>
          length (requests w') = 2 \<and>
          filter (\<lambda>e. sent_host e = None) (trace w') =
            [Stderr ''Importing volume: ClientError: unsupported disk image'', Sleep 10,
             Stderr ('' done.'' @ [LF])]) \<and>
   strstr failed_task_without_id ''<state>cancelled</state>'' \<noteq> None"
proof -
  have ok1: "NUL \<notin> set failed_task_with_id" "length failed_task_with_id \<le> 16365"
    and ok2: "NUL \<notin> set failed_task_without_id" "length failed_task_without_id \<le> 16365"
    and ok3: "NUL \<notin> set completed_task" "length completed_task \<le> 16365"
    by (simp_all add: failed_task_with_id_def failed_task_without_id_def completed_task_def)
  let ?s = "''Action=DescribeConversionTasks&'' @ ''ConversionTaskId.1='' @ ''import-vol-1'' @
            ''&'' @ ''Version=2014-09-01''"
  from demo_poll [OF ok1, of ?s "[]" "[]" "\<lambda>_. None"] obtain req1 where
    c1: "ec2_apicall_loop demo_ext ''AKID'' ''secret'' ''us-west-2'' ?s
           (demo_world [ok_reply failed_task_with_id]) =
         (Some failed_task_with_id,
          \<lparr>replies = [], trace = [] @ [Sent ''ec2.us-west-2.amazonaws.com'' req1],
            files = \<lambda>_. None\<rparr>)"
    unfolding demo_world_def by blast
  have first: "fst (waitforimport demo_ext ''us-west-2'' ''import-vol-1'' ''AKID'' ''secret''
          (demo_world [ok_reply failed_task_with_id])) = Some ''vol-123''"
    unfolding waitforimport_def waitforimport_loop_step [OF c1]
    by (simp add: failed_task_extracts)
  from demo_poll [OF ok2, of ?s "[ok_reply completed_task]" "[]" "\<lambda>_. None"] obtain req2 where
    c2: "ec2_apicall_loop demo_ext ''AKID'' ''secret'' ''us-west-2'' ?s
           (demo_world [ok_reply failed_task_without_id, ok_reply completed_task]) =
         (Some failed_task_without_id,
          \<lparr>replies = [ok_reply completed_task],
            trace = [] @ [Sent ''ec2.us-west-2.amazonaws.com'' req2], files = \<lambda>_. None\<rparr>)"
    unfolding demo_world_def by blast
  define tr where "tr = [Sent ''ec2.us-west-2.amazonaws.com'' req2,
      Stderr ''Importing volume: ClientError: unsupported disk image'', Sleep 10]"
  from demo_poll [OF ok3, of ?s "[]" tr "\<lambda>_. None"] obtain req3 where
    c3: "ec2_apicall_loop demo_ext ''AKID'' ''secret'' ''us-west-2'' ?s
           \<lparr>replies = [ok_reply completed_task], trace = tr, files = \<lambda>_. None\<rparr> =
         (Some completed_task,
          \<lparr>replies = [], trace = tr @ [Sent ''ec2.us-west-2.amazonaws.com'' req3],
            files = \<lambda>_. None\<rparr>)"
    by blast
  have second: "waitforimport demo_ext ''us-west-2'' ''import-vol-1'' ''AKID'' ''secret''
            (demo_world [ok_reply failed_task_without_id, ok_reply completed_task]) =
         (Some ''vol-456'',
          \<lparr>replies = [], trace = tr @ [Sent ''ec2.us-west-2.amazonaws.com'' req3,
             Stderr ('' done.'' @ [LF])], files = \<lambda>_. None\<rparr>)"
    unfolding waitforimport_def waitforimport_loop_step [OF c2]
    apply (simp add: failed_task_extracts printstatus_def fprintf_stderr_def sleep_def emit_def
        tr_def [symmetric])
    unfolding waitforimport_loop_step [OF c3]
    apply (simp add: failed_task_extracts fprintf_stderr_def emit_def)
    done
  show ?thesis
    using first second failed_task_extracts(4,8)
    by (simp add: requests_def tr_def)
qed

theorem waitforimport_poll_witness:
  "\<exists>w1. ec2_apicall_loop demo_ext ''AKID'' ''secret'' ''us-west-2''
           (''Action=DescribeConversionTasks&'' @ ''ConversionTaskId.1='' @ ''import-vol-1'' @
            ''&'' @ ''Version=2014-09-01'')
           (demo_world [ok_reply failed_task_with_id]) = (Some failed_task_with_id, w1) \<and>
         waitforimport_loop demo_ext ''us-west-2'' ''import-vol-1'' ''AKID'' ''secret'' None
           (demo_world [ok_reply failed_task_with_id]) =
           (Some ''vol-123'', fprintf_stderr ('' done.'' @ [LF]) w1)"
proof -
  have ok1: "NUL \<notin> set failed_task_with_id" "length failed_task_with_id \<le> 16365"
    by (simp_all add: failed_task_with_id_def)
  let ?s = "''Action=DescribeConversionTasks&'' @ ''ConversionTaskId.1='' @ ''import-vol-1'' @
            ''&'' @ ''Version=2014-09-01''"
  from demo_poll [OF ok1, of ?s "[]" "[]" "\<lambda>_. None"] obtain w1 where
    c1: "ec2_apicall_loop demo_ext ''AKID'' ''secret'' ''us-west-2'' ?s
           (demo_world [ok_reply failed_task_with_id]) = (Some failed_task_with_id, w1)"
    unfolding demo_world_def by blast
  from waitforimport_poll [OF c1, of None] failed_task_extracts(1,2,3)
  have "waitforimport_loop demo_ext ''us-west-2'' ''import-vol-1'' ''AKID'' ''secret'' None
           (demo_world [ok_reply failed_task_with_id]) =
           (Some ''vol-123'', fprintf_stderr ('' done.'' @ [LF]) w1)"
    by blast
  with c1 show ?thesis by blast
qed

section \<open>Properties of the credential file reader\<close>

lemma takeWhile_stop:
  "\<forall>x \<in> set xs. P x \<Longrightarrow> \<not> P y \<Longrightarrow> takeWhile P (xs @ y # ys) = xs"
  by (induction xs) auto

lemma fgets_line:
  assumes "LF \<notin> set l" "length l \<le> 1022"
  shows "fgets 1024 (l @ LF # rest) = Some (l @ [LF], rest)"
proof -
  have tw: "takeWhile (\<lambda>c. c \<noteq> LF) (l @ LF # rest) = l"
    using assms(1) by (intro takeWhile_stop) auto
  have m: "min (length l + 1) (1024 - 1) = length l + 1"
    using assms(2) by simp
  show ?thesis
    unfolding fgets_def Let_def tw using m by simp
qed

lemma strcspn_line:
  assumes "LF \<notin> set l"
  shows "take (strcspn (l @ [LF]) CRLF) (l @ [LF]) = line_text l"
    and "strcspn (l @ [LF]) CRLF \<noteq> length (l @ [LF])"
proof -
  have eq: "takeWhile (\<lambda>c. c \<notin> set CRLF) (l @ [LF]) = takeWhile (\<lambda>c. c \<noteq> CR) l"
    using assms by (induction l) auto
  show "take (strcspn (l @ [LF]) CRLF) (l @ [LF]) = line_text l"
    unfolding strcspn_def line_text_def eq [symmetric]
    by (metis takeWhile_eq_take)
  have "length (takeWhile (\<lambda>c. c \<noteq> CR) l) \<le> length l"
    by (rule length_takeWhile_le)
  then show "strcspn (l @ [LF]) CRLF \<noteq> length (l @ [LF])"
    unfolding strcspn_def eq by simp
qed

lemma strchr_split:
  "strchr t c = Some q \<Longrightarrow> t = take q t @ c # drop (q + 1) t \<and> c \<notin> set (take q t)"
proof (induction t arbitrary: q)
  case Nil
  then show ?case by (simp add: strchr_def)
next
  case (Cons x xs)
  show ?case
  proof (cases "x = c")
    case True
    with Cons.prems have "q = 0" by (simp add: strchr_def)
    with True show ?thesis by simp
  next
    case False
    with Cons.prems obtain q' where q': "strchr xs c = Some q'" "q = Suc q'"
      by (auto simp: strchr_def split: if_splits)
    from Cons.IH [OF q'(1)] False q'(2) show ?thesis by simp
  qed
qed

lemma key_name_prefix:
  assumes "CHR ''='' \<notin> set name"
  shows "(case strchr t (CHR ''='') of None \<Rightarrow> False | Some q \<Rightarrow> take q t = name) \<longleftrightarrow>
         prefix (name @ ''='') t"
    and "prefix (name @ ''='') t \<Longrightarrow>
         \<exists>q. strchr t (CHR ''='') = Some q \<and> take q t = name \<and>
             drop (q + 1) t = drop (length name + 1) t"
proof -
  have fwd: "prefix (name @ ''='') t \<Longrightarrow>
         \<exists>q. strchr t (CHR ''='') = Some q \<and> take q t = name \<and>
             drop (q + 1) t = drop (length name + 1) t"
  proof -
    assume "prefix (name @ ''='') t"
    then obtain r where t: "t = name @ CHR ''='' # r" by (auto simp: prefix_def)
    have tw: "takeWhile (\<lambda>d. d \<noteq> CHR ''='') t = name"
      unfolding t using assms by (intro takeWhile_stop) auto
    have "strchr t (CHR ''='') = Some (length name)"
      unfolding strchr_def tw using t by simp
    then show ?thesis using t by simp
  qed
  then show "prefix (name @ ''='') t \<Longrightarrow>
         \<exists>q. strchr t (CHR ''='') = Some q \<and> take q t = name \<and>
             drop (q + 1) t = drop (length name + 1) t" .
  show "(case strchr t (CHR ''='') of None \<Rightarrow> False | Some q \<Rightarrow> take q t = name) \<longleftrightarrow>
         prefix (name @ ''='') t"
  proof
    assume "case strchr t (CHR ''='') of None \<Rightarrow> False | Some q \<Rightarrow> take q t = name"
    then obtain q where q: "strchr t (CHR ''='') = Some q" "take q t = name"
      by (auto split: option.splits)
    from strchr_split [OF q(1)] q(2) have "t = name @ CHR ''='' # drop (q + 1) t" by simp
    then show "prefix (name @ ''='') t" by (metis append.assoc append_Cons append_Nil prefixI)
  next
    assume "prefix (name @ ''='') t"
    with fwd show "case strchr t (CHR ''='') of None \<Rightarrow> False | Some q \<Rightarrow> take q t = name"
      by auto
  qed
qed


lemma readkeys_loop_line:
  assumes "LF \<notin> set l" "NUL \<notin> set l" "length l \<le> 1022"
  shows "readkeys_loop fname (l @ LF # rest) key_id key_secret w =
     (if key_id_line l then
        (if key_id \<noteq> None
         then (Err1, key_id, key_secret, warn0 ''ACCESS_KEY_ID specified twice'' w)
         else readkeys_loop fname rest (Some (drop 14 (line_text l))) key_secret w)
      else if key_secret_line l then
        (if key_secret \<noteq> None
         then (Err1, key_id, key_secret, warn0 ''ACCESS_KEY_SECRET specified twice'' w)
         else readkeys_loop fname rest key_id (Some (drop 18 (line_text l))) w)
      else (Err2, key_id, key_secret, w))"
proof -
  define t where "t = line_text l"
  define b where "b = l @ [LF]"
  have c: "cstr b = b"
    unfolding b_def using assms(2) by (intro cstr_no_NUL) simp
  have sc: "take (strcspn b CRLF) b = t" "strcspn b CRLF \<noteq> length b"
    unfolding b_def t_def by (rule strcspn_line [OF assms(1)])+
  have g: "fgets 1024 (l @ LF # rest) = Some (b, rest)"
    unfolding b_def by (rule fgets_line [OF assms(1,3)])
  have unfold: "readkeys_loop fname (l @ LF # rest) key_id key_secret w =
     (case strchr t (CHR ''='') of
        None \<Rightarrow> (Err2, key_id, key_secret, w)
      | Some q \<Rightarrow>
          if take q t = ''ACCESS_KEY_ID'' then
            (if key_id \<noteq> None
             then (Err1, key_id, key_secret, warn0 ''ACCESS_KEY_ID specified twice'' w)
             else readkeys_loop fname rest (Some (drop (q + 1) t)) key_secret w)
          else if take q t = ''ACCESS_KEY_SECRET'' then
            (if key_secret \<noteq> None
             then (Err1, key_id, key_secret, warn0 ''ACCESS_KEY_SECRET specified twice'' w)
             else readkeys_loop fname rest key_id (Some (drop (q + 1) t)) w)
          else (Err2, key_id, key_secret, w))"
    by (subst readkeys_loop.simps) (simp add: g c sc Let_def split: option.split)
  have n1: "CHR ''='' \<notin> set ''ACCESS_KEY_ID''" and n2: "CHR ''='' \<notin> set ''ACCESS_KEY_SECRET''"
    by simp_all
  show ?thesis
  proof (cases "key_id_line l")
    case True
    then have "prefix (''ACCESS_KEY_ID'' @ ''='') t" by (simp add: key_id_line_def t_def)
    from key_name_prefix(2) [OF n1 this] obtain q where
      q: "strchr t (CHR ''='') = Some q" "take q t = ''ACCESS_KEY_ID''"
      "drop (q + 1) t = drop (length ''ACCESS_KEY_ID'' + 1) t"
      by blast
    have "length ''ACCESS_KEY_ID'' + 1 = (14::nat)" by simp
    then have "drop (q + 1) t = drop 14 t"
      unfolding q(3) by (rule arg_cong)
    with q True show ?thesis unfolding unfold by (simp add: t_def)
  next
    case noid: False
    then have ni: "\<not> prefix (''ACCESS_KEY_ID'' @ ''='') t" by (simp add: key_id_line_def t_def)
    show ?thesis
    proof (cases "key_secret_line l")
      case True
      then have "prefix (''ACCESS_KEY_SECRET'' @ ''='') t"
        by (simp add: key_secret_line_def t_def)
      from key_name_prefix(2) [OF n2 this] obtain q where
        q: "strchr t (CHR ''='') = Some q" "take q t = ''ACCESS_KEY_SECRET''"
        "drop (q + 1) t = drop (length ''ACCESS_KEY_SECRET'' + 1) t"
        by blast
      have "length ''ACCESS_KEY_SECRET'' + 1 = (18::nat)" by simp
      then have "drop (q + 1) t = drop 18 t"
        unfolding q(3) by (rule arg_cong)
      with q True noid show ?thesis unfolding unfold by (simp add: t_def)
    next
      case False
      then have ns: "\<not> prefix (''ACCESS_KEY_SECRET'' @ ''='') t"
        by (simp add: key_secret_line_def t_def)
      from ni ns key_name_prefix(1) [OF n1, of t] key_name_prefix(1) [OF n2, of t]
      have "case strchr t (CHR ''='') of None \<Rightarrow> True
            | Some q \<Rightarrow> take q t \<noteq> ''ACCESS_KEY_ID'' \<and> take q t \<noteq> ''ACCESS_KEY_SECRET''"
        by (auto split: option.splits)
      with noid False show ?thesis unfolding unfold by (auto split: option.splits)
    qed
  qed
qed

lemma readkeys_loop_eof:
  "readkeys_loop fname [] key_id key_secret w = (Finished, key_id, key_secret, w)"
  by (subst readkeys_loop.simps) (simp add: fgets_def)

lemma readkeys_loop_missing_eol:
  assumes "tail \<noteq> []" "CR \<notin> set (take 1023 tail)" "LF \<notin> set (take 1023 tail)"
  shows "readkeys_loop fname tail key_id key_secret w =
           (Finished, key_id, key_secret, warn0 (''Missing EOL in '' @ fname) w)"
proof -
  obtain bytes f' where g: "fgets 1024 tail = Some (bytes, f')"
    using assms(1) by (auto simp: fgets_def Let_def)
  then obtain m where "bytes = take m tail" "m \<le> 1023"
    using assms(1) by (auto simp: fgets_def Let_def)
  then have "set bytes \<subseteq> set (take 1023 tail)"
    by (simp add: set_take_subset_set_take)
  moreover have "set (cstr bytes) \<subseteq> set bytes"
    unfolding cstr_def by (auto dest: set_takeWhileD)
  ultimately have "\<forall>c \<in> set (cstr bytes). c \<notin> set CRLF"
    using assms(2,3) by auto
  then have "takeWhile (\<lambda>c. c \<notin> set CRLF) (cstr bytes) = cstr bytes"
    by (simp only: takeWhile_eq_all_conv)
  then have "strcspn (cstr bytes) CRLF = length (cstr bytes)"
    unfolding strcspn_def by (rule arg_cong)
  then show ?thesis
    by (subst readkeys_loop.simps) (simp add: g Let_def)
qed

lemma terminated_lines_Cons:
  "terminated_lines (l # ls) @ tail = l @ LF # (terminated_lines ls @ tail)"
  by (simp add: terminated_lines_def)

lemma readkeys_loop_lines:
  assumes "\<forall>l \<in> set ls. LF \<notin> set l \<and> NUL \<notin> set l \<and> length l \<le> 1022"
  shows "case scan_lines ls key_id key_secret of
           (Finished, a, b) \<Rightarrow>
             readkeys_loop fname (terminated_lines ls @ tail) key_id key_secret w =
             readkeys_loop fname tail a b w
         | (Err1, a, b) \<Rightarrow>
             fst (readkeys_loop fname (terminated_lines ls @ tail) key_id key_secret w) = Err1
         | (Err2, a, b) \<Rightarrow>
             fst (readkeys_loop fname (terminated_lines ls @ tail) key_id key_secret w) = Err2"
  using assms
proof (induction ls arbitrary: key_id key_secret)
  case Nil
  then show ?case by (simp add: terminated_lines_def)
next
  case (Cons l ls)
  then have l: "LF \<notin> set l" "NUL \<notin> set l" "length l \<le> 1022"
    and rest: "\<forall>l \<in> set ls. LF \<notin> set l \<and> NUL \<notin> set l \<and> length l \<le> 1022"
    by simp_all
  note step = readkeys_loop_line [OF l, of fname "terminated_lines ls @ tail" key_id key_secret w]
  show ?case
  proof (cases "key_id_line l")
    case True
    show ?thesis
    proof (cases "key_id = None")
      case None: True
      from Cons.IH [OF rest, of "Some (drop 14 (line_text l))" key_secret]
      show ?thesis
        unfolding terminated_lines_Cons step using True None by simp
    next
      case False
      then show ?thesis
        unfolding terminated_lines_Cons step using True by simp
    qed
  next
    case noid: False
    show ?thesis
    proof (cases "key_secret_line l")
      case True
      show ?thesis
      proof (cases "key_secret = None")
        case None: True
        from Cons.IH [OF rest, of key_id "Some (drop 18 (line_text l))"]
        show ?thesis
          unfolding terminated_lines_Cons step using True noid None by simp
      next
        case False
        then show ?thesis
          unfolding terminated_lines_Cons step using True noid by simp
      qed
    next
      case False
      then show ?thesis
        unfolding terminated_lines_Cons step using noid by simp
    qed
  qed
qed

lemma key_lines_disjoint:
  "key_id_line l \<Longrightarrow> \<not> key_secret_line l"
  by (auto simp: key_id_line_def key_secret_line_def prefix_def)

lemma scan_lines_Finished:
  "scan_lines ls key_id key_secret = (Finished, a, b) \<longleftrightarrow>
   list_all (\<lambda>l. key_id_line l \<or> key_secret_line l) ls \<and>
   (if key_id = None
    then length (key_id_values ls) \<le> 1 \<and>
         a = (case key_id_values ls of [] \<Rightarrow> None | v # vs \<Rightarrow> Some v)
    else key_id_values ls = [] \<and> a = key_id) \<and>
   (if key_secret = None
    then length (key_secret_values ls) \<le> 1 \<and>
         b = (case key_secret_values ls of [] \<Rightarrow> None | v # vs \<Rightarrow> Some v)
    else key_secret_values ls = [] \<and> b = key_secret)"
proof (induction ls arbitrary: key_id key_secret)
  case Nil
  then show ?case by (auto simp: key_id_values_def key_secret_values_def)
next
  case (Cons l ls)
  show ?case
  proof (cases "key_id_line l")
    case True
    then have ns: "\<not> key_secret_line l" by (rule key_lines_disjoint)
    have v: "key_id_values (l # ls) = drop 14 (line_text l) # key_id_values ls"
      "key_secret_values (l # ls) = key_secret_values ls"
      using True ns by (simp_all add: key_id_values_def key_secret_values_def)
    show ?thesis
      unfolding v using True ns
      by (cases "key_id = None")
         (auto simp: Cons.IH split: list.splits)
  next
    case noid: False
    show ?thesis
    proof (cases "key_secret_line l")
      case True
      have v: "key_id_values (l # ls) = key_id_values ls"
        "key_secret_values (l # ls) = drop 18 (line_text l) # key_secret_values ls"
        using True noid by (simp_all add: key_id_values_def key_secret_values_def)
      show ?thesis
        unfolding v using True noid
        by (cases "key_secret = None")
           (auto simp: Cons.IH split: list.splits)
    next
      case False
      with noid show ?thesis by simp
    qed
  qed
qed

lemma scan_lines_keys:
  "(\<exists>i s. scan_lines ls None None = (Finished, Some i, Some s) \<and> r = Some (i, s)) \<or>
   ((\<forall>i s. scan_lines ls None None \<noteq> (Finished, Some i, Some s)) \<and> r = None)
   \<longleftrightarrow> keys_of_lines ls = r"
  unfolding scan_lines_Finished keys_of_lines_def
  by (cases "key_id_values ls"; cases "key_secret_values ls";
      cases "tl (key_id_values ls)"; cases "tl (key_secret_values ls)")
     (auto split: list.splits)

lemma readkeys_of_loop:
  assumes "files w fname = Some f"
    and "readkeys_loop fname f None None w = (Finished, a, b, w')"
  shows "fst (readkeys fname w) =
           (case a of None \<Rightarrow> None
            | Some i \<Rightarrow> (case b of None \<Rightarrow> None | Some s \<Rightarrow> Some (i, s)))"
  using assms by (simp add: readkeys_def split: option.splits)

lemma readkeys_of_loop_error:
  assumes "files w fname = Some f"
    and "fst (readkeys_loop fname f None None w) \<noteq> Finished"
  shows "fst (readkeys fname w) = None"
  using assms
  by (cases "readkeys_loop fname f None None w")
     (auto simp: readkeys_def split: loop_exit.splits)

lemma readkeys_lines:
  assumes lines: "\<forall>l \<in> set ls. LF \<notin> set l \<and> NUL \<notin> set l \<and> length l \<le> 1022"
    and fl: "files w fname = Some (terminated_lines ls)"
  shows "fst (readkeys fname w) = keys_of_lines ls"
proof -
  obtain e a b where sc: "scan_lines ls None None = (e, a, b)"
    by (cases "scan_lines ls None None")
  note loop = readkeys_loop_lines [OF lines, where key_id = None and key_secret = None
      and fname = fname and tail = "[]" and w = w, unfolded sc, simplified]
  show ?thesis
  proof (cases e)
    case Finished
    with loop have "readkeys_loop fname (terminated_lines ls) None None w = (Finished, a, b, w)"
      by (simp add: readkeys_loop_eof)
    from readkeys_of_loop [OF fl this]
    have r: "fst (readkeys fname w) =
           (case a of None \<Rightarrow> None
            | Some i \<Rightarrow> (case b of None \<Rightarrow> None | Some s \<Rightarrow> Some (i, s)))" .
    show ?thesis
      using scan_lines_keys [of ls "fst (readkeys fname w)"] sc Finished
      unfolding r by (auto split: option.splits)
  next
    case Err1
    with loop have "fst (readkeys_loop fname (terminated_lines ls) None None w) \<noteq> Finished"
      by simp
    from readkeys_of_loop_error [OF fl this]
    show ?thesis
      using scan_lines_keys [of ls None] sc Err1 by auto
  next
    case Err2
    with loop have "fst (readkeys_loop fname (terminated_lines ls) None None w) \<noteq> Finished"
      by simp
    from readkeys_of_loop_error [OF fl this]
    show ?thesis
      using scan_lines_keys [of ls None] sc Err2 by auto
  qed
qed

lemma readkeys_missing_eol:
  assumes lines: "\<forall>l \<in> set ls. LF \<notin> set l \<and> NUL \<notin> set l \<and> length l \<le> 1022"
    and fl: "files w fname = Some (terminated_lines ls @ tail)"
    and tail: "tail \<noteq> []" "CR \<notin> set (take 1023 tail)" "LF \<notin> set (take 1023 tail)"
    and missing: "key_id_values ls = [] \<or> key_secret_values ls = []"
  shows "fst (readkeys fname w) = None"
proof -
  obtain e a b where sc: "scan_lines ls None None = (e, a, b)"
    by (cases "scan_lines ls None None")
  note loop = readkeys_loop_lines [OF lines, where key_id = None and key_secret = None
      and fname = fname and tail = tail and w = w, unfolded sc, simplified]
  show ?thesis
  proof (cases e)
    case Finished
    with loop have l: "readkeys_loop fname (terminated_lines ls @ tail) None None w =
        (Finished, a, b, warn0 (''Missing EOL in '' @ fname) w)"
      by (simp add: readkeys_loop_missing_eol [OF tail])
    from sc Finished have "scan_lines ls None None = (Finished, a, b)" by simp
    from this [unfolded scan_lines_Finished] missing have "a = None \<or> b = None"
      by auto
    then show ?thesis
      unfolding readkeys_of_loop [OF fl l] by (auto split: option.splits)
  next
    case Err1
    with loop have "fst (readkeys_loop fname (terminated_lines ls @ tail) None None w) \<noteq> Finished"
      by simp
    from readkeys_of_loop_error [OF fl this] show ?thesis .
  next
    case Err2
    with loop have "fst (readkeys_loop fname (terminated_lines ls @ tail) None None w) \<noteq> Finished"
      by simp
    from readkeys_of_loop_error [OF fl this] show ?thesis .
  qed
qed

text \<open>
  Claim C4, as amended.  Take a credential file that begins with lines \<open>ls\<close>, each ended
  by a newline, free of NUL bytes and at most 1022 bytes long, so that it fits the line
  buffer with its newline.  If the file consists of these lines only, \<^verbatim>\<open>readkeys\<close>
  succeeds exactly when every line reads \<^verbatim>\<open>ACCESS_KEY_ID=<value>\<close> or
  \<^verbatim>\<open>ACCESS_KEY_SECRET=<value>\<close> (up to its first carriage return), and each of the two
  keys appears exactly once; it then returns the two values, and it fails otherwise.  If
  these lines are followed by text that has no end of line within the next 1023 bytes (a
  last line without its terminator, or a line too long for the buffer), \<^verbatim>\<open>readkeys\<close>
  fails whenever one of the two keys has not appeared among the lines before it.
\<close>

theorem readkeys_format:
  assumes "\<forall>l \<in> set ls. LF \<notin> set l \<and> NUL \<notin> set l \<and> length l \<le> 1022"
  shows "(files w fname = Some (terminated_lines ls) \<longrightarrow>
            fst (readkeys fname w) =
              (if list_all (\<lambda>l. key_id_line l \<or> key_secret_line l) ls
               then (case (key_id_values ls, key_secret_values ls) of
                       ([i], [s]) \<Rightarrow> Some (i, s)
                     | _ \<Rightarrow> None)
               else None)) \<and>
         (\<forall>tail. files w fname = Some (terminated_lines ls @ tail) \<and> tail \<noteq> [] \<and>
            CR \<notin> set (take 1023 tail) \<and> LF \<notin> set (take 1023 tail) \<and>
            (key_id_values ls = [] \<or> key_secret_values ls = []) \<longrightarrow>
            fst (readkeys fname w) = None)"
  using readkeys_lines [OF assms, of w fname] readkeys_missing_eol [OF assms, of w fname]
  unfolding keys_of_lines_def by blast

theorem readkeys_format_witness:
  "fst (readkeys ''aws.keys''
          (keyfile_world ''aws.keys''
             (terminated_lines [''ACCESS_KEY_ID=AKID'', ''ACCESS_KEY_SECRET=s3cr3t'' @ [CR]]))) =
     Some (''AKID'', ''s3cr3t'') \<and>
   fst (readkeys ''aws.keys''
          (keyfile_world ''aws.keys''
             (terminated_lines [''ACCESS_KEY_ID=AKID'', ''ACCESS_KEY_ID=other'',
                ''ACCESS_KEY_SECRET=s3cr3t'']))) = None \<and>
   fst (readkeys ''aws.keys''
          (keyfile_world ''aws.keys''
             (terminated_lines [''ACCESS_KEY_ID=AKID''] @ ''ACCESS_KEY_SECRET=s3cr3t''))) = None"
proof -
  have f: "files (keyfile_world ''aws.keys'' c) ''aws.keys'' = Some c" for c
    by (simp add: keyfile_world_def)
  have 1: "fst (readkeys ''aws.keys''
          (keyfile_world ''aws.keys''
             (terminated_lines [''ACCESS_KEY_ID=AKID'', ''ACCESS_KEY_SECRET=s3cr3t'' @ [CR]]))) =
     Some (''AKID'', ''s3cr3t'')"
    using readkeys_format [of "[''ACCESS_KEY_ID=AKID'', ''ACCESS_KEY_SECRET=s3cr3t'' @ [CR]]"
        "keyfile_world ''aws.keys''
             (terminated_lines [''ACCESS_KEY_ID=AKID'', ''ACCESS_KEY_SECRET=s3cr3t'' @ [CR]])"
        "''aws.keys''"]
    by (simp add: f key_id_line_def key_secret_line_def key_id_values_def key_secret_values_def
        line_text_def)
  have 2: "fst (readkeys ''aws.keys''
          (keyfile_world ''aws.keys''
             (terminated_lines [''ACCESS_KEY_ID=AKID'', ''ACCESS_KEY_ID=other'',
                ''ACCESS_KEY_SECRET=s3cr3t'']))) = None"
    using readkeys_format [of "[''ACCESS_KEY_ID=AKID'', ''ACCESS_KEY_ID=other'',
                ''ACCESS_KEY_SECRET=s3cr3t'']"
        "keyfile_world ''aws.keys''
             (terminated_lines [''ACCESS_KEY_ID=AKID'', ''ACCESS_KEY_ID=other'',
                ''ACCESS_KEY_SECRET=s3cr3t''])"
        "''aws.keys''"]
    by (simp add: f key_id_line_def key_secret_line_def key_id_values_def key_secret_values_def
        line_text_def)
  have 3: "fst (readkeys ''aws.keys''
          (keyfile_world ''aws.keys''
             (terminated_lines [''ACCESS_KEY_ID=AKID''] @ ''ACCESS_KEY_SECRET=s3cr3t''))) = None"
    using readkeys_format [of "[''ACCESS_KEY_ID=AKID'']"
        "keyfile_world ''aws.keys''
             (terminated_lines [''ACCESS_KEY_ID=AKID''] @ ''ACCESS_KEY_SECRET=s3cr3t'')"
        "''aws.keys''", THEN conjunct2, rule_format, of "''ACCESS_KEY_SECRET=s3cr3t''"]
    by (simp add: f key_id_line_def key_secret_line_def key_id_values_def key_secret_values_def
        line_text_def)
  from 1 2 3 show ?thesis by blast
qed

theorem readkeys_format_counterexample:
  "fst (readkeys ''aws.keys''
          (keyfile_world ''aws.keys''
             (''ACCESS_KEY_ID=AKID'' @ [LF] @ ''ACCESS_KEY_SECRET=s3cr3t'' @ [LF] @
              ''ACCESS_KEY_ID=other''))) = Some (''AKID'', ''s3cr3t'') \<and>
   fst (readkeys ''aws.keys''
          (keyfile_world ''aws.keys''
             (''ACCESS_KEY_ID='' @ replicate 1100 (CHR ''A'') @ [LF] @
              ''ACCESS_KEY_SECRET=s3cr3t'' @ [LF]))) = None"
proof -
  have f: "files (keyfile_world ''aws.keys'' c) ''aws.keys'' = Some c" for c
    by (simp add: keyfile_world_def)
  let ?ls = "[''ACCESS_KEY_ID=AKID'', ''ACCESS_KEY_SECRET=s3cr3t'']"
  have lines: "\<forall>l \<in> set ?ls. LF \<notin> set l \<and> NUL \<notin> set l \<and> length l \<le> 1022"
    by simp
  have sc: "scan_lines ?ls None None = (Finished, Some ''AKID'', Some ''s3cr3t'')"
    by (simp add: key_id_line_def key_secret_line_def line_text_def)
  have tail: "''ACCESS_KEY_ID=other'' \<noteq> []" "CR \<notin> set (take 1023 ''ACCESS_KEY_ID=other'')"
    "LF \<notin> set (take 1023 ''ACCESS_KEY_ID=other'')"
    by simp_all
  have "readkeys_loop ''aws.keys'' (terminated_lines ?ls @ ''ACCESS_KEY_ID=other'') None None w =
        (Finished, Some ''AKID'', Some ''s3cr3t'', warn0 (''Missing EOL in '' @ ''aws.keys'') w)"
    for w
    using readkeys_loop_lines [OF lines, where key_id = None and key_secret = None
        and fname = "''aws.keys''" and tail = "''ACCESS_KEY_ID=other''" and w = w]
    unfolding sc by (simp add: readkeys_loop_missing_eol [OF tail])
  from readkeys_of_loop [OF f this]
  have 1: "fst (readkeys ''aws.keys''
          (keyfile_world ''aws.keys''
             (''ACCESS_KEY_ID=AKID'' @ [LF] @ ''ACCESS_KEY_SECRET=s3cr3t'' @ [LF] @
              ''ACCESS_KEY_ID=other''))) = Some (''AKID'', ''s3cr3t'')"
    by (simp add: terminated_lines_def)
  let ?long = "''ACCESS_KEY_ID='' @ replicate 1100 (CHR ''A'') @ [LF] @
              ''ACCESS_KEY_SECRET=s3cr3t'' @ [LF]"
  have tk: "take 1023 ?long = ''ACCESS_KEY_ID='' @ replicate 1009 (CHR ''A'')"
    by simp
  have long: "?long \<noteq> []" "CR \<notin> set (take 1023 ?long)" "LF \<notin> set (take 1023 ?long)"
    unfolding tk by simp_all
  have "readkeys_loop ''aws.keys'' ?long None None w =
        (Finished, None, None, warn0 (''Missing EOL in '' @ ''aws.keys'') w)" for w
    by (rule readkeys_loop_missing_eol [OF long])
  from readkeys_of_loop [OF f this]
  have 2: "fst (readkeys ''aws.keys'' (keyfile_world ''aws.keys'' ?long)) = None"
    by simp
  from 1 2 show ?thesis by blast
qed

section \<open>Properties of the upload\<close>

lemma wrap_s64_id: "- (2 ^ 63) \<le> i \<Longrightarrow> i < 2 ^ 63 \<Longrightarrow> wrap_s64 i = i"
  by (simp add: wrap_s64_def)

lemma wrap_u64_id: "0 \<le> i \<Longrightarrow> i < 2 ^ 64 \<Longrightarrow> wrap_u64 i = i"
  by (simp add: wrap_u64_def)

lemma wrap_s32_id: "- (2 ^ 31) \<le> i \<Longrightarrow> i < 2 ^ 31 \<Longrightarrow> wrap_s32 i = i"
  by (simp add: wrap_s32_def)

lemma manifest_parts_count_eq:
  assumes "n + PARTSZ \<le> 2 ^ 63"
  shows "manifest_parts_count (int n) = int ((n + PARTSZ - 1) div PARTSZ)"
proof -
  have P: "0 < PARTSZ" by (simp add: PARTSZ_def)
  have le: "int n + int PARTSZ \<le> 2 ^ 63"
    using assms by (metis of_nat_add of_nat_le_iff of_nat_numeral of_nat_power)
  have a: "int n + int PARTSZ - 1 = int (n + PARTSZ - 1)"
    using P by simp
  have b: "0 \<le> int (n + PARTSZ - 1)" "int (n + PARTSZ - 1) < 2 ^ 63"
    using le a by linarith+
  have c: "int (n + PARTSZ - 1) div int PARTSZ = int ((n + PARTSZ - 1) div PARTSZ)"
    by (simp add: zdiv_int)
  have d: "int ((n + PARTSZ - 1) div PARTSZ) \<le> int (n + PARTSZ - 1)"
    by (simp del: of_nat_add of_nat_diff)
  have p: "(2::int) ^ 63 < 2 ^ 64" "- (2 ^ 63) \<le> (0::int)" by simp_all
  have s1: "wrap_s64 (int (n + PARTSZ - 1)) = int (n + PARTSZ - 1)"
    using b p by (intro wrap_s64_id) linarith+
  have s2: "wrap_u64 (int (n + PARTSZ - 1)) = int (n + PARTSZ - 1)"
    using b p by (intro wrap_u64_id) linarith+
  have s3: "wrap_s64 (int ((n + PARTSZ - 1) div PARTSZ)) = int ((n + PARTSZ - 1) div PARTSZ)"
    using b d p by (intro wrap_s64_id) linarith+
  show ?thesis
    unfolding manifest_parts_count_def a s1 s2 c s3 ..
qed

lemma ceiling_parts:
  assumes "0 < n"
  shows "((n + PARTSZ - 1) div PARTSZ - 1) * PARTSZ < n"
    and "n \<le> (n + PARTSZ - 1) div PARTSZ * PARTSZ"
    and "0 < (n + PARTSZ - 1) div PARTSZ"
proof -
  have P: "0 < PARTSZ" by (simp add: PARTSZ_def)
  define c where "c = (n + PARTSZ - 1) div PARTSZ"
  have m: "c * PARTSZ + (n + PARTSZ - 1) mod PARTSZ = n + PARTSZ - 1"
    unfolding c_def by simp
  have r: "(n + PARTSZ - 1) mod PARTSZ < PARTSZ"
    using P by simp
  from m r assms P show "n \<le> (n + PARTSZ - 1) div PARTSZ * PARTSZ"
    unfolding c_def [symmetric] by linarith
  from m r assms P have pos: "0 < c"
    by (cases c) auto
  then show "0 < (n + PARTSZ - 1) div PARTSZ" unfolding c_def .
  from pos obtain c' where c': "c = Suc c'" by (cases c) auto
  from m have "c' * PARTSZ + PARTSZ + (n + PARTSZ - 1) mod PARTSZ = n + PARTSZ - 1"
    unfolding c' by simp
  with assms P have "c' * PARTSZ < n" by linarith
  then show "((n + PARTSZ - 1) div PARTSZ - 1) * PARTSZ < n"
    unfolding c_def [symmetric] c' by simp
qed


lemma part_ranges_drop:
  assumes "k < (n + PARTSZ - 1) div PARTSZ"
  shows "drop k (part_ranges n) =
           (k, k * PARTSZ, min ((k + 1) * PARTSZ) n - 1) # drop (k + 1) (part_ranges n)"
proof -
  have len: "k < length (part_ranges n)"
    using assms by (simp add: part_ranges_def)
  have "part_ranges n ! k = (k, k * PARTSZ, min ((k + 1) * PARTSZ) n - 1)"
    using assms by (simp add: part_ranges_def)
  with Cons_nth_drop_Suc [OF len] show ?thesis by simp
qed

lemma part_ranges_drop_all:
  assumes "n \<le> pos"
  shows "drop ((pos + PARTSZ - 1) div PARTSZ) (part_ranges n) = []"
proof -
  have "(n + PARTSZ - 1) div PARTSZ \<le> (pos + PARTSZ - 1) div PARTSZ"
    using assms by (intro div_le_mono) simp
  then show ?thesis by (simp add: part_ranges_def)
qed

lemma uploadvolume_parts_step:
  assumes "pos < st_size"
  shows "uploadvolume_parts x fname region bucket key_id key_secret nonce st_size pos buflen f
           manifest w = (Some m', w') \<longleftrightarrow>
         (\<exists>buf f' w1 block.
            fread (min (st_size - pos) buflen) f = Some (buf, f') \<and>
            s3_put_loop x key_id key_secret region bucket
              (''/'' @ nonce @ ''/part'' @ show_nat (pos div PARTSZ)) buf
              (fprintf_stderr ''.'' w) = (0, w1) \<and>
            part_block x key_id key_secret region bucket nonce (pos div PARTSZ) pos
              (pos + min (st_size - pos) buflen - 1) = Some block \<and>
            uploadvolume_parts x fname region bucket key_id key_secret nonce st_size
              (pos + min (st_size - pos) buflen) (min (st_size - pos) buflen) f'
              (manifest @ block) w1 = (Some m', w'))"
proof -
  have b: "(if st_size - pos < buflen then st_size - pos else buflen) = min (st_size - pos) buflen"
    by simp
  show ?thesis
    by (subst uploadvolume_parts.simps)
       (auto simp: assms b Let_def simp del: min_less_iff_conj
          split: option.splits prod.splits)
qed

lemma uploadvolume_parts_blocks:
  assumes "uploadvolume_parts x fname region bucket key_id key_secret nonce n pos buflen f m w =
             (Some m', w')"
    and "pos < n \<longrightarrow> buflen = PARTSZ \<and> PARTSZ dvd pos"
  shows "\<exists>blocks.
           map (\<lambda>(i, s, e). part_block x key_id key_secret region bucket nonce i s e)
             (drop ((pos + PARTSZ - 1) div PARTSZ) (part_ranges n)) = map Some blocks \<and>
           m' = m @ concat blocks"
  using assms
proof (induction "n - pos" arbitrary: pos buflen f m w rule: less_induct)
  case less
  have P: "0 < PARTSZ" by (simp add: PARTSZ_def)
  show ?case
  proof (cases "pos < n")
    case False
    with less.prems(1) have "m' = m"
      by (subst (asm) uploadvolume_parts.simps) simp
    moreover from False have "drop ((pos + PARTSZ - 1) div PARTSZ) (part_ranges n) = []"
      by (intro part_ranges_drop_all) simp
    ultimately show ?thesis by simp
  next
    case True
    with less.prems(2) have bl: "buflen = PARTSZ" and dv: "PARTSZ dvd pos" by simp_all
    from dv obtain k where "pos = PARTSZ * k" ..
    then have k: "pos = k * PARTSZ" by (simp add: mult.commute)
    define b where "b = min (n - pos) buflen"
    have b0: "0 < b" using True P bl by (simp add: b_def)
    from less.prems(1) [unfolded uploadvolume_parts_step [OF True], folded b_def]
    obtain buf :: "char list" and f' w1 block where
      blk: "part_block x key_id key_secret region bucket nonce (pos div PARTSZ) pos (pos + b - 1)
              = Some block"
      and rest: "uploadvolume_parts x fname region bucket key_id key_secret nonce n (pos + b) b f'
              (m @ block) w1 = (Some m', w')"
      by blast
    have idx: "pos div PARTSZ = k" using k P by simp
    have kp: "(k + 1) * PARTSZ = pos + PARTSZ" using k by simp
    have "pos + b = min (pos + PARTSZ) n"
      using True unfolding b_def bl by linarith
    then have next_pos: "pos + b = min ((k + 1) * PARTSZ) n"
      unfolding kp .
    have last_byte: "pos + b - 1 = min ((k + 1) * PARTSZ) n - 1"
      using next_pos by simp
    have "pos + b < n \<longrightarrow> b = PARTSZ"
      using True unfolding b_def bl by linarith
    moreover have "PARTSZ dvd (pos + PARTSZ)" using dv by simp
    ultimately have inv: "pos + b < n \<longrightarrow> b = PARTSZ \<and> PARTSZ dvd (pos + b)"
      by auto
    have kc: "k < (n + PARTSZ - 1) div PARTSZ"
    proof -
      have "k * PARTSZ + PARTSZ \<le> n + PARTSZ - 1" using True k by simp
      then have "(k + 1) * PARTSZ \<le> n + PARTSZ - 1" by simp
      then have "k + 1 \<le> (n + PARTSZ - 1) div PARTSZ"
        using P by (simp add: less_eq_div_iff_mult_less_eq del: add_Suc_right)
      then show ?thesis by simp
    qed
    have ceil: "(pos + b + PARTSZ - 1) div PARTSZ = k + 1"
    proof (rule div_nat_eqI)
      have e1: "PARTSZ * (k + 1) = pos + PARTSZ"
        using k by (simp add: mult.commute)
      have e2: "PARTSZ * Suc (k + 1) = pos + PARTSZ + PARTSZ"
        using k by (simp add: mult.commute)
      have le: "b \<le> PARTSZ" unfolding b_def bl by simp
      show "PARTSZ * (k + 1) \<le> pos + b + PARTSZ - 1"
        unfolding e1 using b0 by linarith
      show "pos + b + PARTSZ - 1 < PARTSZ * Suc (k + 1)"
        unfolding e2 using le P by linarith
    qed
    have "n - (pos + b) < n - pos" using True b0 by simp
    from less.hyps [OF this rest inv] obtain blocks where
      bs: "map (\<lambda>(i, s, e). part_block x key_id key_secret region bucket nonce i s e)
             (drop ((pos + b + PARTSZ - 1) div PARTSZ) (part_ranges n)) = map Some blocks"
        "m' = (m @ block) @ concat blocks"
      by blast
    have cur: "(pos + PARTSZ - 1) div PARTSZ = k"
    proof (rule div_nat_eqI)
      have c: "PARTSZ * k = pos" "PARTSZ * Suc k = pos + PARTSZ"
        using k by (simp_all add: mult.commute)
      show "PARTSZ * k \<le> pos + PARTSZ - 1" unfolding c using P by linarith
      show "pos + PARTSZ - 1 < PARTSZ * Suc k" unfolding c using P by linarith
    qed
    from blk have "part_block x key_id key_secret region bucket nonce k pos
        (min ((k + 1) * PARTSZ) n - 1) = Some block"
      unfolding idx last_byte .
    then have blk': "part_block x key_id key_secret region bucket nonce k (k * PARTSZ)
        (min ((k + 1) * PARTSZ) n - 1) = Some block"
      unfolding k .
    from bs(1) have bs': "map (\<lambda>(i, s, e). part_block x key_id key_secret region bucket nonce i s e)
        (drop (k + 1) (part_ranges n)) = map Some blocks"
      unfolding ceil .
    show ?thesis
      apply (rule exI [of _ "block # blocks"])
      unfolding cur part_ranges_drop [OF kc]
      using blk' bs' bs(2) by simp
  qed
qed


lemma part_ranges_length:
  "length (part_ranges n) = (n + PARTSZ - 1) div PARTSZ"
  by (simp add: part_ranges_def)

lemma part_ranges_nth:
  "i < (n + PARTSZ - 1) div PARTSZ \<Longrightarrow>
   part_ranges n ! i = (i, i * PARTSZ, min ((i + 1) * PARTSZ) n - 1)"
  by (simp add: part_ranges_def)

lemma part_before_end:
  assumes "i < (n + PARTSZ - 1) div PARTSZ"
  shows "i * PARTSZ < n"
proof -
  have P: "0 < PARTSZ" by (simp add: PARTSZ_def)
  from assms have n: "0 < n"
    using P by (cases n) auto
  from assms have "i \<le> (n + PARTSZ - 1) div PARTSZ - 1" by simp
  then have "i * PARTSZ \<le> ((n + PARTSZ - 1) div PARTSZ - 1) * PARTSZ"
    by (rule mult_le_mono1)
  with ceiling_parts(1) [OF n] show ?thesis by linarith
qed

lemma part_ranges_contiguous:
  assumes "i + 1 < (n + PARTSZ - 1) div PARTSZ"
  shows "range_start (part_ranges n ! (i + 1)) = range_end (part_ranges n ! i) + 1"
proof -
  have P: "0 < PARTSZ" by (simp add: PARTSZ_def)
  from part_before_end [OF assms] have "(i + 1) * PARTSZ < n" .
  then have "min ((i + 1) * PARTSZ) n - 1 + 1 = (i + 1) * PARTSZ"
    using P by simp
  moreover have "i < (n + PARTSZ - 1) div PARTSZ" using assms by simp
  ultimately show ?thesis
    using assms by (simp add: part_ranges_nth range_start_def range_end_def del: add_Suc_right)
qed

lemma part_ranges_first:
  assumes "0 < n"
  shows "range_start (hd (part_ranges n)) = 0"
proof -
  from ceiling_parts(3) [OF assms] have c: "0 < (n + PARTSZ - 1) div PARTSZ" .
  then have "part_ranges n \<noteq> []" by (simp add: part_ranges_def)
  then have "hd (part_ranges n) = part_ranges n ! 0" by (simp add: hd_conv_nth)
  with part_ranges_nth [OF c] show ?thesis by (simp add: range_start_def)
qed

lemma part_ranges_last:
  assumes "0 < n"
  shows "range_end (last (part_ranges n)) = n - 1"
    and "range_end (last (part_ranges n)) - range_start (last (part_ranges n)) + 1 =
         n - ((n + PARTSZ - 1) div PARTSZ - 1) * PARTSZ"
proof -
  define c where "c = (n + PARTSZ - 1) div PARTSZ"
  from ceiling_parts [OF assms] have c: "0 < c" "(c - 1) * PARTSZ < n" "n \<le> c * PARTSZ"
    by (simp_all add: c_def)
  then have ne: "part_ranges n \<noteq> []" by (simp add: part_ranges_def c_def)
  have "last (part_ranges n) = part_ranges n ! (c - 1)"
    using ne by (simp add: last_conv_nth part_ranges_length c_def)
  also have "\<dots> = (c - 1, (c - 1) * PARTSZ, min ((c - 1 + 1) * PARTSZ) n - 1)"
    using c(1) by (intro part_ranges_nth) (simp add: c_def)
  also have "min ((c - 1 + 1) * PARTSZ) n = n"
    using c by simp
  finally have l: "last (part_ranges n) = (c - 1, (c - 1) * PARTSZ, n - 1)" .
  show "range_end (last (part_ranges n)) = n - 1"
    by (simp add: l range_end_def)
  show "range_end (last (part_ranges n)) - range_start (last (part_ranges n)) + 1 =
         n - ((n + PARTSZ - 1) div PARTSZ - 1) * PARTSZ"
    unfolding c_def [symmetric] l using c(2) by (simp add: range_end_def range_start_def)
qed

lemma part_ranges_nonempty:
  assumes "r \<in> set (part_ranges n)"
  shows "range_start r \<le> range_end r" and "range_end r < n"
proof -
  have P: "0 < PARTSZ" by (simp add: PARTSZ_def)
  from assms obtain i where i: "i < (n + PARTSZ - 1) div PARTSZ"
    and r: "r = (i, i * PARTSZ, min ((i + 1) * PARTSZ) n - 1)"
    by (auto simp: part_ranges_def)
  from part_before_end [OF i] have lt: "i * PARTSZ < n" .
  have rs: "range_start r = i * PARTSZ" "range_end r = min (i * PARTSZ + PARTSZ) n - 1"
    by (simp_all add: r range_start_def range_end_def add.commute)
  show "range_start r \<le> range_end r"
    unfolding rs using lt P by linarith
  show "range_end r < n"
    unfolding rs using lt P by linarith
qed

lemma part_ranges_cover:
  "(\<Union>r \<in> set (part_ranges n). {range_start r .. range_end r}) = {0 ..< n}"
proof (intro equalityI subsetI)
  fix b
  assume "b \<in> (\<Union>r \<in> set (part_ranges n). {range_start r .. range_end r})"
  then obtain r where "r \<in> set (part_ranges n)" "b \<le> range_end r" by auto
  with part_ranges_nonempty(2) [of r n] show "b \<in> {0 ..< n}" by simp
next
  fix b
  assume "b \<in> {0 ..< n}"
  then have b: "b < n" by simp
  have P: "0 < PARTSZ" by (simp add: PARTSZ_def)
  define i where "i = b div PARTSZ"
  have lo: "i * PARTSZ \<le> b" unfolding i_def by simp
  have hi: "b < (i + 1) * PARTSZ"
    unfolding i_def using dividend_less_div_times [OF P, of b] by simp
  have "b + PARTSZ - 1 < n + PARTSZ - 1" using b P by simp
  have "(i + 1) * PARTSZ \<le> n + PARTSZ - 1" using lo b by simp
  then have "i + 1 \<le> (n + PARTSZ - 1) div PARTSZ"
    using P by (simp add: less_eq_div_iff_mult_less_eq del: add_Suc_right)
  then have ic: "i < (n + PARTSZ - 1) div PARTSZ" by simp
  then have "part_ranges n ! i \<in> set (part_ranges n)"
    by (simp add: part_ranges_length)
  moreover have "b \<in> {range_start (part_ranges n ! i) .. range_end (part_ranges n ! i)}"
    using lo hi b by (simp add: part_ranges_nth [OF ic] range_start_def range_end_def)
  ultimately show "b \<in> (\<Union>r \<in> set (part_ranges n). {range_start r .. range_end r})"
    by blast
qed

lemma part_ranges_disjoint:
  assumes "i < j" "j < (n + PARTSZ - 1) div PARTSZ"
  shows "range_end (part_ranges n ! i) < range_start (part_ranges n ! j)"
proof -
  have P: "0 < PARTSZ" by (simp add: PARTSZ_def)
  from assms have i: "i < (n + PARTSZ - 1) div PARTSZ" by simp
  have "(i + 1) * PARTSZ \<le> j * PARTSZ"
    using assms(1) by (intro mult_le_mono1) simp
  moreover have "min ((i + 1) * PARTSZ) n - 1 < (i + 1) * PARTSZ"
    using P by simp
  moreover have "range_end (part_ranges n ! i) = min ((i + 1) * PARTSZ) n - 1"
    "range_start (part_ranges n ! j) = j * PARTSZ"
    by (simp_all add: part_ranges_nth [OF i] part_ranges_nth [OF assms(2)]
        range_start_def range_end_def)
  ultimately show ?thesis by linarith
qed


lemma show_int_nat: "show_int (int n) = show_nat n"
  by (simp add: show_int_def)

lemma manifest_size_eq:
  assumes "n + PARTSZ \<le> 2 ^ 63"
  shows "manifest_size (int n) = int n"
proof -
  have P: "0 < PARTSZ" by (simp add: PARTSZ_def)
  have le: "int n + int PARTSZ \<le> 2 ^ 63"
    using assms by (metis of_nat_add of_nat_le_iff of_nat_numeral of_nat_power)
  have b: "0 \<le> int n" "int n < 2 ^ 63"
    using le P by linarith+
  have p: "(2::int) ^ 63 < 2 ^ 64" "- (2 ^ 63) \<le> (0::int)" by simp_all
  have s1: "wrap_u64 (int n) = int n"
    using b p by (intro wrap_u64_id) linarith+
  have s2: "wrap_s64 (int n) = int n"
    using b p by (intro wrap_s64_id) linarith+
  show ?thesis
    unfolding manifest_size_def s1 s2 ..
qed

lemma manifest_start_text:
  assumes "n + PARTSZ \<le> 2 ^ 63"
  shows "manifest_start bucket path query (int n) =
     ''<?xml version='' @ DQ @ ''1.0'' @ DQ @ '' encoding='' @ DQ @ ''UTF-8'' @ DQ @
       '' standalone='' @ DQ @ ''yes'' @ DQ @ ''?>'' @
     ''<manifest>'' @
     ''<version>2010-11-15</version>'' @
     ''<file-format>RAW</file-format>'' @
     ''<importer>'' @
     ''<name>bsdec2-image-upload</name>'' @
     ''<version>1.2.2</version>'' @
     ''<release>2019-03-20</release>'' @
     ''</importer>'' @
     ''<self-destruct-url>https://'' @ bucket @ ''.s3.amazonaws.com'' @ path @ ''?'' @ query @
       ''</self-destruct-url>'' @
     ''<import>'' @
     ''<size>'' @ show_nat n @ ''</size>'' @
     ''<volume-size>'' @ show_int (manifest_volume_size (int n)) @ ''</volume-size>'' @
     ''<parts count='' @ DQ @ show_nat ((n + PARTSZ - 1) div PARTSZ) @ DQ @ ''>''"
  unfolding manifest_start_def manifest_size_eq [OF assms] manifest_parts_count_eq [OF assms]
    show_int_nat
  by simp

lemma part_block_text:
  assumes "part_block x key_id key_secret region bucket nonce i s e = Some b"
  shows "\<exists>h g d.
           presigned_query x key_id key_secret region ''HEAD'' bucket
             (''/'' @ nonce @ ''/part'' @ show_nat i) = Some h \<and>
           presigned_query x key_id key_secret region ''GET'' bucket
             (''/'' @ nonce @ ''/part'' @ show_nat i) = Some g \<and>
           presigned_query x key_id key_secret region ''DELETE'' bucket
             (''/'' @ nonce @ ''/part'' @ show_nat i) = Some d \<and>
           b = ''<part index='' @ DQ @ show_nat i @ DQ @ ''>'' @
               ''<byte-range start='' @ DQ @ show_nat s @ DQ @
                 '' end='' @ DQ @ show_nat e @ DQ @ ''/>'' @
               ''<key>'' @ nonce @ ''/part'' @ show_nat i @ ''</key>'' @
               ''<head-url>https://'' @ bucket @ ''.s3.amazonaws.com/'' @ nonce @ ''/part'' @
                 show_nat i @ ''?'' @ h @ ''</head-url>'' @
               ''<get-url>https://'' @ bucket @ ''.s3.amazonaws.com/'' @ nonce @ ''/part'' @
                 show_nat i @ ''?'' @ g @ ''</get-url>'' @
               ''<delete-url>https://'' @ bucket @ ''.s3.amazonaws.com/'' @ nonce @ ''/part'' @
                 show_nat i @ ''?'' @ d @ ''</delete-url>'' @
               ''</part>''"
  using assms by (auto simp: part_block_def Let_def split: option.splits)

lemma part_blocks_text:
  assumes "map (\<lambda>(i, s, e). part_block x key_id key_secret region bucket nonce i s e) rs =
             map Some blocks"
  shows "\<exists>hq gq dq.
           (\<forall>r \<in> set rs.
              presigned_query x key_id key_secret region ''HEAD'' bucket
                (''/'' @ nonce @ ''/part'' @ show_nat (fst r)) = Some (hq (fst r)) \<and>
              presigned_query x key_id key_secret region ''GET'' bucket
                (''/'' @ nonce @ ''/part'' @ show_nat (fst r)) = Some (gq (fst r)) \<and>
              presigned_query x key_id key_secret region ''DELETE'' bucket
                (''/'' @ nonce @ ''/part'' @ show_nat (fst r)) = Some (dq (fst r))) \<and>
           blocks = map (\<lambda>(i, s, e).
               ''<part index='' @ DQ @ show_nat i @ DQ @ ''>'' @
               ''<byte-range start='' @ DQ @ show_nat s @ DQ @
                 '' end='' @ DQ @ show_nat e @ DQ @ ''/>'' @
               ''<key>'' @ nonce @ ''/part'' @ show_nat i @ ''</key>'' @
               ''<head-url>https://'' @ bucket @ ''.s3.amazonaws.com/'' @ nonce @ ''/part'' @
                 show_nat i @ ''?'' @ hq i @ ''</head-url>'' @
               ''<get-url>https://'' @ bucket @ ''.s3.amazonaws.com/'' @ nonce @ ''/part'' @
                 show_nat i @ ''?'' @ gq i @ ''</get-url>'' @
               ''<delete-url>https://'' @ bucket @ ''.s3.amazonaws.com/'' @ nonce @ ''/part'' @
                 show_nat i @ ''?'' @ dq i @ ''</delete-url>'' @
               ''</part>'') rs"
proof -
  define pq where "pq m i = the (presigned_query x key_id key_secret region m bucket
                                  (''/'' @ nonce @ ''/part'' @ show_nat i))" for m i
  have "(\<forall>r \<in> set rs.
              presigned_query x key_id key_secret region ''HEAD'' bucket
                (''/'' @ nonce @ ''/part'' @ show_nat (fst r)) = Some (pq ''HEAD'' (fst r)) \<and>
              presigned_query x key_id key_secret region ''GET'' bucket
                (''/'' @ nonce @ ''/part'' @ show_nat (fst r)) = Some (pq ''GET'' (fst r)) \<and>
              presigned_query x key_id key_secret region ''DELETE'' bucket
                (''/'' @ nonce @ ''/part'' @ show_nat (fst r)) = Some (pq ''DELETE'' (fst r))) \<and>
           blocks = map (\<lambda>(i, s, e).
               ''<part index='' @ DQ @ show_nat i @ DQ @ ''>'' @
               ''<byte-range start='' @ DQ @ show_nat s @ DQ @
                 '' end='' @ DQ @ show_nat e @ DQ @ ''/>'' @
               ''<key>'' @ nonce @ ''/part'' @ show_nat i @ ''</key>'' @
               ''<head-url>https://'' @ bucket @ ''.s3.amazonaws.com/'' @ nonce @ ''/part'' @
                 show_nat i @ ''?'' @ pq ''HEAD'' i @ ''</head-url>'' @
               ''<get-url>https://'' @ bucket @ ''.s3.amazonaws.com/'' @ nonce @ ''/part'' @
                 show_nat i @ ''?'' @ pq ''GET'' i @ ''</get-url>'' @
               ''<delete-url>https://'' @ bucket @ ''.s3.amazonaws.com/'' @ nonce @ ''/part'' @
                 show_nat i @ ''?'' @ pq ''DELETE'' i @ ''</delete-url>'' @
               ''</part>'') rs"
    using assms
  proof (induction rs arbitrary: blocks)
    case Nil
    then show ?case by simp
  next
    case (Cons r rs)
    obtain i s e where r: "r = (i, s, e)" by (cases r)
    from Cons.prems obtain b bs where
      bl: "blocks = b # bs"
      and b: "part_block x key_id key_secret region bucket nonce i s e = Some b"
      and bs: "map (\<lambda>(i, s, e). part_block x key_id key_secret region bucket nonce i s e) rs =
                 map Some bs"
      unfolding r by (cases blocks) auto
    from part_block_text [OF b] have
      "presigned_query x key_id key_secret region ''HEAD'' bucket
         (''/'' @ nonce @ ''/part'' @ show_nat i) = Some (pq ''HEAD'' i)"
      "presigned_query x key_id key_secret region ''GET'' bucket
         (''/'' @ nonce @ ''/part'' @ show_nat i) = Some (pq ''GET'' i)"
      "presigned_query x key_id key_secret region ''DELETE'' bucket
         (''/'' @ nonce @ ''/part'' @ show_nat i) = Some (pq ''DELETE'' i)"
      "b = ''<part index='' @ DQ @ show_nat i @ DQ @ ''>'' @
               ''<byte-range start='' @ DQ @ show_nat s @ DQ @
                 '' end='' @ DQ @ show_nat e @ DQ @ ''/>'' @
               ''<key>'' @ nonce @ ''/part'' @ show_nat i @ ''</key>'' @
               ''<head-url>https://'' @ bucket @ ''.s3.amazonaws.com/'' @ nonce @ ''/part'' @
                 show_nat i @ ''?'' @ pq ''HEAD'' i @ ''</head-url>'' @
               ''<get-url>https://'' @ bucket @ ''.s3.amazonaws.com/'' @ nonce @ ''/part'' @
                 show_nat i @ ''?'' @ pq ''GET'' i @ ''</get-url>'' @
               ''<delete-url>https://'' @ bucket @ ''.s3.amazonaws.com/'' @ nonce @ ''/part'' @
                 show_nat i @ ''?'' @ pq ''DELETE'' i @ ''</delete-url>'' @
               ''</part>''"
      unfolding pq_def by auto
    with Cons.IH [OF bs] show ?case
      unfolding bl r by simp
  qed
  then show ?thesis by blast
qed

lemma s3_put_sent:
  assumes "s3_put x key_id key_secret region bucket path buf w = (0, w')"
  shows "\<exists>sha date auth.
           aws_sign_s3_headers x key_id key_secret region ''PUT'' bucket path buf =
             Some (sha, date, auth) \<and>
           trace w' = trace w @ [Sent (s3_endpoint region)
             (''PUT '' @ path @ '' HTTP/1.1'' @ CRLF @
              ''Host: '' @ bucket @ ''.s3.amazonaws.com'' @ CRLF @
              ''X-Amz-Date: '' @ date @ CRLF @
              ''X-Amz-Content-SHA256: '' @ sha @ CRLF @
              ''Authorization: '' @ auth @ CRLF @
              ''Content-Length: '' @ show_nat (length buf) @ CRLF @
              ''Connection: close'' @ CRLF @
              CRLF @ buf)]"
  using assms
  by (auto simp: s3_put_def Let_def dest!: sslreq_trace
      split: option.splits prod.splits sum.splits if_splits)

lemma s3_put_loop_sent:
  assumes "s3_put_loop x key_id key_secret region bucket path buf w = (0, w')"
  shows "\<exists>sha date auth.
           aws_sign_s3_headers x key_id key_secret region ''PUT'' bucket path buf =
             Some (sha, date, auth) \<and>
           requests w' \<noteq> [] \<and>
           last (requests w') = Sent (s3_endpoint region)
             (''PUT '' @ path @ '' HTTP/1.1'' @ CRLF @
              ''Host: '' @ bucket @ ''.s3.amazonaws.com'' @ CRLF @
              ''X-Amz-Date: '' @ date @ CRLF @
              ''X-Amz-Content-SHA256: '' @ sha @ CRLF @
              ''Authorization: '' @ auth @ CRLF @
              ''Content-Length: '' @ show_nat (length buf) @ CRLF @
              ''Connection: close'' @ CRLF @
              CRLF @ buf)"
proof -
  obtain r0 w0 where
    br: "bounded_retry (s3_put x key_id key_secret region bucket path buf) (\<lambda>r. r = 0)
           (\<lambda>j. s3_put_failed j path) 10 0 w = (r0, w0)"
    by (cases "bounded_retry (s3_put x key_id key_secret region bucket path buf) (\<lambda>r. r = 0)
           (\<lambda>j. s3_put_failed j path) 10 0 w")
  with assms s3_put_loop_from_eq [of 0 10 x key_id key_secret region bucket path buf w]
  obtain r where "r0 = Some r" "w0 = w'"
    by (cases r0) (auto simp: s3_put_loop_def)
  with br have "bounded_retry (s3_put x key_id key_secret region bucket path buf) (\<lambda>r. r = 0)
           (\<lambda>j. s3_put_failed j path) 10 0 w = (Some r, w')"
    by simp
  then have "r = 0 \<and> (\<exists>w1. s3_put x key_id key_secret region bucket path buf w1 = (r, w'))"
    unfolding bounded_retry_Some by blast
  then obtain w1 where "s3_put x key_id key_secret region bucket path buf w1 = (0, w')"
    by blast
  from s3_put_sent [OF this] show ?thesis
    by (auto simp: requests_def)
qed

lemma uploadvolume_success:
  assumes "uploadvolume x fname region bucket key_id key_secret w = (Some (path, sz), w')"
    and "files w fname = Some f"
  shows "\<exists>nonce query m1 w0 w1 w3 w4.
           noncehex x = Some nonce \<and>
           path = ''/'' @ nonce @ ''/manifest.xml'' \<and>
           sz = int (length f) \<and>
           presigned_query x key_id key_secret region ''DELETE'' bucket path = Some query \<and>
           uploadvolume_parts x fname region bucket key_id key_secret nonce (length f) 0 PARTSZ f
             (manifest_start bucket path query (int (length f))) w0 = (Some m1, w1) \<and>
           s3_put_loop x key_id key_secret region bucket path
             (m1 @ ''</parts></import></manifest>'') w3 = (0, w4) \<and>
           w' = fprintf_stderr ('' done.'' @ [LF]) w4"
  using assms
  by (auto simp: uploadvolume_def presigned_query_def Let_def
      split: option.splits prod.splits if_splits)

text \<open>
  Claim C1.  Let \<^verbatim>\<open>uploadvolume\<close> succeed on an image of \<open>n > 0\<close> bytes (with
  \<open>n + PARTSZ\<close> within the range of \<^verbatim>\<open>off_t\<close>, so that the arithmetic of the
  program does not overflow).  Then the last request it has sent is the PUT of the
  manifest, and the text of the manifest is the one written out below: its head declares
  the size \<open>n\<close> and, in \<^verbatim>\<open><parts count="c">\<close>, the part count \<open>c\<close>; then comes one
  \<^verbatim>\<open><part>\<close> element for each entry \<open>(i, s, e)\<close> of \<open>part_ranges n\<close>, in order,
  with the index \<open>i\<close> and the element \<^verbatim>\<open><byte-range start="s" end="e"/>\<close>; then the
  closing tags.  The count \<open>c\<close> is the number of these elements and equals
  \<open>\<lceil>n / PARTSZ\<rceil>\<close>: it is \<open>(n + PARTSZ - 1) div PARTSZ\<close>, the number with
  \<open>(c - 1) * PARTSZ < n \<le> c * PARTSZ\<close>.  The indices are \<open>0, \<dots>, c - 1\<close>; the first
  range starts at byte 0, each further range starts at the byte after the end of its
  predecessor, the last range ends at byte \<open>n - 1\<close>; no range is empty, an earlier range
  ends before a later one starts, together the ranges are exactly the bytes
  \<open>0, \<dots>, n - 1\<close>, and the last range has \<open>n - (c - 1) * PARTSZ\<close> bytes.
\<close>

theorem uploadvolume_manifest_parts:
  assumes "uploadvolume x fname region bucket key_id key_secret w = (Some (path, sz), w')"
    and "files w fname = Some f"
    and "0 < length f"
    and "length f + PARTSZ \<le> 2 ^ 63"
  shows "(\<exists>nonce query hq gq dq sha date auth manifest.
           noncehex x = Some nonce \<and>
           path = ''/'' @ nonce @ ''/manifest.xml'' \<and>
           sz = int (length f) \<and>
           presigned_query x key_id key_secret region ''DELETE'' bucket path = Some query \<and>
           (\<forall>i < length (part_ranges (length f)).
              presigned_query x key_id key_secret region ''HEAD'' bucket
                (''/'' @ nonce @ ''/part'' @ show_nat i) = Some (hq i) \<and>
              presigned_query x key_id key_secret region ''GET'' bucket
                (''/'' @ nonce @ ''/part'' @ show_nat i) = Some (gq i) \<and>
              presigned_query x key_id key_secret region ''DELETE'' bucket
                (''/'' @ nonce @ ''/part'' @ show_nat i) = Some (dq i)) \<and>
           manifest =
             ''<?xml version='' @ DQ @ ''1.0'' @ DQ @ '' encoding='' @ DQ @ ''UTF-8'' @ DQ @
               '' standalone='' @ DQ @ ''yes'' @ DQ @ ''?>'' @
             ''<manifest>'' @
             ''<version>2010-11-15</version>'' @
             ''<file-format>RAW</file-format>'' @
             ''<importer>'' @
             ''<name>bsdec2-image-upload</name>'' @
             ''<version>1.2.2</version>'' @
             ''<release>2019-03-20</release>'' @
             ''</importer>'' @
             ''<self-destruct-url>https://'' @ bucket @ ''.s3.amazonaws.com'' @ path @ ''?'' @
               query @ ''</self-destruct-url>'' @
             ''<import>'' @
             ''<size>'' @ show_nat (length f) @ ''</size>'' @
             ''<volume-size>'' @ show_int (manifest_volume_size (int (length f))) @
               ''</volume-size>'' @
             ''<parts count='' @ DQ @ show_nat (length (part_ranges (length f))) @ DQ @ ''>'' @
             concat (map (\<lambda>(i, s, e).
               ''<part index='' @ DQ @ show_nat i @ DQ @ ''>'' @
               ''<byte-range start='' @ DQ @ show_nat s @ DQ @
                 '' end='' @ DQ @ show_nat e @ DQ @ ''/>'' @
               ''<key>'' @ nonce @ ''/part'' @ show_nat i @ ''</key>'' @
               ''<head-url>https://'' @ bucket @ ''.s3.amazonaws.com/'' @ nonce @ ''/part'' @
                 show_nat i @ ''?'' @ hq i @ ''</head-url>'' @
               ''<get-url>https://'' @ bucket @ ''.s3.amazonaws.com/'' @ nonce @ ''/part'' @
                 show_nat i @ ''?'' @ gq i @ ''</get-url>'' @
               ''<delete-url>https://'' @ bucket @ ''.s3.amazonaws.com/'' @ nonce @ ''/part'' @
                 show_nat i @ ''?'' @ dq i @ ''</delete-url>'' @
               ''</part>'') (part_ranges (length f))) @
             ''</parts></import></manifest>'' \<and>
           aws_sign_s3_headers x key_id key_secret region ''PUT'' bucket path manifest =
             Some (sha, date, auth) \<and>
           requests w' \<noteq> [] \<and>
           last (requests w') = Sent (s3_endpoint region)
             (''PUT '' @ path @ '' HTTP/1.1'' @ CRLF @
              ''Host: '' @ bucket @ ''.s3.amazonaws.com'' @ CRLF @
              ''X-Amz-Date: '' @ date @ CRLF @
              ''X-Amz-Content-SHA256: '' @ sha @ CRLF @
              ''Authorization: '' @ auth @ CRLF @
              ''Content-Length: '' @ show_nat (length manifest) @ CRLF @
              ''Connection: close'' @ CRLF @
              CRLF @ manifest)) \<and>
         (length (part_ranges (length f)) = (length f + PARTSZ - 1) div PARTSZ) \<and>
         ((length (part_ranges (length f)) - 1) * PARTSZ < length f) \<and>
         (length f \<le> length (part_ranges (length f)) * PARTSZ) \<and>
         (map fst (part_ranges (length f)) = [0 ..< length (part_ranges (length f))]) \<and>
         (range_start (hd (part_ranges (length f))) = 0) \<and>
         (\<forall>i. i + 1 < length (part_ranges (length f)) \<longrightarrow>
           range_start (part_ranges (length f) ! (i + 1)) =
           range_end (part_ranges (length f) ! i) + 1) \<and>
         (range_end (last (part_ranges (length f))) = length f - 1) \<and>
         (\<forall>r \<in> set (part_ranges (length f)). range_start r \<le> range_end r) \<and>
         (\<forall>i j. i < j \<and> j < length (part_ranges (length f)) \<longrightarrow>
           range_end (part_ranges (length f) ! i) < range_start (part_ranges (length f) ! j)) \<and>
         ((\<Union>r \<in> set (part_ranges (length f)). {range_start r .. range_end r}) =
           {0 ..< length f}) \<and>
         (range_end (last (part_ranges (length f))) - range_start (last (part_ranges (length f)))
           + 1 = length f - (length (part_ranges (length f)) - 1) * PARTSZ)"
proof -
  from uploadvolume_success [OF assms(1,2)] obtain nonce query m1 w0 w1 w3 w4 where
    u: "noncehex x = Some nonce" "path = ''/'' @ nonce @ ''/manifest.xml''"
      "sz = int (length f)"
      "presigned_query x key_id key_secret region ''DELETE'' bucket path = Some query"
      "uploadvolume_parts x fname region bucket key_id key_secret nonce (length f) 0 PARTSZ f
         (manifest_start bucket path query (int (length f))) w0 = (Some m1, w1)"
      "s3_put_loop x key_id key_secret region bucket path
         (m1 @ ''</parts></import></manifest>'') w3 = (0, w4)"
      "w' = fprintf_stderr ('' done.'' @ [LF]) w4"
    by blast
  have P: "0 < PARTSZ" by (simp add: PARTSZ_def)
  from uploadvolume_parts_blocks [OF u(5)] P obtain blocks where
    b: "map (\<lambda>(i, s, e). part_block x key_id key_secret region bucket nonce i s e)
          (part_ranges (length f)) = map Some blocks"
      "m1 = manifest_start bucket path query (int (length f)) @ concat blocks"
    by auto
  from part_blocks_text [OF b(1)] obtain hq gq dq where
    q: "\<forall>r \<in> set (part_ranges (length f)).
          presigned_query x key_id key_secret region ''HEAD'' bucket
            (''/'' @ nonce @ ''/part'' @ show_nat (fst r)) = Some (hq (fst r)) \<and>
          presigned_query x key_id key_secret region ''GET'' bucket
            (''/'' @ nonce @ ''/part'' @ show_nat (fst r)) = Some (gq (fst r)) \<and>
          presigned_query x key_id key_secret region ''DELETE'' bucket
            (''/'' @ nonce @ ''/part'' @ show_nat (fst r)) = Some (dq (fst r))"
    and bt: "blocks = map (\<lambda>(i, s, e).
               ''<part index='' @ DQ @ show_nat i @ DQ @ ''>'' @
               ''<byte-range start='' @ DQ @ show_nat s @ DQ @
                 '' end='' @ DQ @ show_nat e @ DQ @ ''/>'' @
               ''<key>'' @ nonce @ ''/part'' @ show_nat i @ ''</key>'' @
               ''<head-url>https://'' @ bucket @ ''.s3.amazonaws.com/'' @ nonce @ ''/part'' @
                 show_nat i @ ''?'' @ hq i @ ''</head-url>'' @
               ''<get-url>https://'' @ bucket @ ''.s3.amazonaws.com/'' @ nonce @ ''/part'' @
                 show_nat i @ ''?'' @ gq i @ ''</get-url>'' @
               ''<delete-url>https://'' @ bucket @ ''.s3.amazonaws.com/'' @ nonce @ ''/part'' @
                 show_nat i @ ''?'' @ dq i @ ''</delete-url>'' @
               ''</part>'') (part_ranges (length f))"
    by blast
  have qi: "presigned_query x key_id key_secret region ''HEAD'' bucket
              (''/'' @ nonce @ ''/part'' @ show_nat i) = Some (hq i) \<and>
            presigned_query x key_id key_secret region ''GET'' bucket
              (''/'' @ nonce @ ''/part'' @ show_nat i) = Some (gq i) \<and>
            presigned_query x key_id key_secret region ''DELETE'' bucket
              (''/'' @ nonce @ ''/part'' @ show_nat i) = Some (dq i)"
    if "i < length (part_ranges (length f))" for i
  proof -
    from that have "part_ranges (length f) ! i \<in> set (part_ranges (length f))"
      by simp
    moreover from that have "fst (part_ranges (length f) ! i) = i"
      by (simp add: part_ranges_def)
    ultimately show ?thesis
      using q by metis
  qed
  define manifest where "manifest = m1 @ ''</parts></import></manifest>''"
  have mt: "manifest =
             ''<?xml version='' @ DQ @ ''1.0'' @ DQ @ '' encoding='' @ DQ @ ''UTF-8'' @ DQ @
               '' standalone='' @ DQ @ ''yes'' @ DQ @ ''?>'' @
             ''<manifest>'' @
             ''<version>2010-11-15</version>'' @
             ''<file-format>RAW</file-format>'' @
             ''<importer>'' @
             ''<name>bsdec2-image-upload</name>'' @
             ''<version>1.2.2</version>'' @
             ''<release>2019-03-20</release>'' @
             ''</importer>'' @
             ''<self-destruct-url>https://'' @ bucket @ ''.s3.amazonaws.com'' @ path @ ''?'' @
               query @ ''</self-destruct-url>'' @
             ''<import>'' @
             ''<size>'' @ show_nat (length f) @ ''</size>'' @
             ''<volume-size>'' @ show_int (manifest_volume_size (int (length f))) @
               ''</volume-size>'' @
             ''<parts count='' @ DQ @ show_nat (length (part_ranges (length f))) @ DQ @ ''>'' @
             concat (map (\<lambda>(i, s, e).
               ''<part index='' @ DQ @ show_nat i @ DQ @ ''>'' @
               ''<byte-range start='' @ DQ @ show_nat s @ DQ @
                 '' end='' @ DQ @ show_nat e @ DQ @ ''/>'' @
               ''<key>'' @ nonce @ ''/part'' @ show_nat i @ ''</key>'' @
               ''<head-url>https://'' @ bucket @ ''.s3.amazonaws.com/'' @ nonce @ ''/part'' @
                 show_nat i @ ''?'' @ hq i @ ''</head-url>'' @
               ''<get-url>https://'' @ bucket @ ''.s3.amazonaws.com/'' @ nonce @ ''/part'' @
                 show_nat i @ ''?'' @ gq i @ ''</get-url>'' @
               ''<delete-url>https://'' @ bucket @ ''.s3.amazonaws.com/'' @ nonce @ ''/part'' @
                 show_nat i @ ''?'' @ dq i @ ''</delete-url>'' @
               ''</part>'') (part_ranges (length f))) @
             ''</parts></import></manifest>''"
    unfolding manifest_def b(2) manifest_start_text [OF assms(4)] part_ranges_length
    unfolding bt by simp
  from s3_put_loop_sent [OF u(6) [folded manifest_def]] obtain sha date auth where
    sg: "aws_sign_s3_headers x key_id key_secret region ''PUT'' bucket path manifest =
           Some (sha, date, auth)"
    and ne: "requests w4 \<noteq> []"
    and lr: "last (requests w4) = Sent (s3_endpoint region)
             (''PUT '' @ path @ '' HTTP/1.1'' @ CRLF @
              ''Host: '' @ bucket @ ''.s3.amazonaws.com'' @ CRLF @
              ''X-Amz-Date: '' @ date @ CRLF @
              ''X-Amz-Content-SHA256: '' @ sha @ CRLF @
              ''Authorization: '' @ auth @ CRLF @
              ''Content-Length: '' @ show_nat (length manifest) @ CRLF @
              ''Connection: close'' @ CRLF @
              CRLF @ manifest)"
    by blast
  have rw: "requests w' = requests w4"
    unfolding u(7) by (simp add: fprintf_stderr_def requests_def)
  have qa: "\<forall>i < length (part_ranges (length f)).
              presigned_query x key_id key_secret region ''HEAD'' bucket
                (''/'' @ nonce @ ''/part'' @ show_nat i) = Some (hq i) \<and>
              presigned_query x key_id key_secret region ''GET'' bucket
                (''/'' @ nonce @ ''/part'' @ show_nat i) = Some (gq i) \<and>
              presigned_query x key_id key_secret region ''DELETE'' bucket
                (''/'' @ nonce @ ''/part'' @ show_nat i) = Some (dq i)"
    using qi by blast
  have rq: "requests w' \<noteq> []"
    "last (requests w') = Sent (s3_endpoint region)
             (''PUT '' @ path @ '' HTTP/1.1'' @ CRLF @
              ''Host: '' @ bucket @ ''.s3.amazonaws.com'' @ CRLF @
              ''X-Amz-Date: '' @ date @ CRLF @
              ''X-Amz-Content-SHA256: '' @ sha @ CRLF @
              ''Authorization: '' @ auth @ CRLF @
              ''Content-Length: '' @ show_nat (length manifest) @ CRLF @
              ''Connection: close'' @ CRLF @
              CRLF @ manifest)"
    unfolding rw by (fact ne lr)+
  have c1: "\<exists>nonce query hq gq dq sha date auth manifest.
           noncehex x = Some nonce \<and>
           path = ''/'' @ nonce @ ''/manifest.xml'' \<and>
           sz = int (length f) \<and>
           presigned_query x key_id key_secret region ''DELETE'' bucket path = Some query \<and>
           (\<forall>i < length (part_ranges (length f)).
              presigned_query x key_id key_secret region ''HEAD'' bucket
                (''/'' @ nonce @ ''/part'' @ show_nat i) = Some (hq i) \<and>
              presigned_query x key_id key_secret region ''GET'' bucket
                (''/'' @ nonce @ ''/part'' @ show_nat i) = Some (gq i) \<and>
              presigned_query x key_id key_secret region ''DELETE'' bucket
                (''/'' @ nonce @ ''/part'' @ show_nat i) = Some (dq i)) \<and>
           manifest =
             ''<?xml version='' @ DQ @ ''1.0'' @ DQ @ '' encoding='' @ DQ @ ''UTF-8'' @ DQ @
               '' standalone='' @ DQ @ ''yes'' @ DQ @ ''?>'' @
             ''<manifest>'' @
             ''<version>2010-11-15</version>'' @
             ''<file-format>RAW</file-format>'' @
             ''<importer>'' @
             ''<name>bsdec2-image-upload</name>'' @
             ''<version>1.2.2</version>'' @
             ''<release>2019-03-20</release>'' @
             ''</importer>'' @
             ''<self-destruct-url>https://'' @ bucket @ ''.s3.amazonaws.com'' @ path @ ''?'' @
               query @ ''</self-destruct-url>'' @
             ''<import>'' @
             ''<size>'' @ show_nat (length f) @ ''</size>'' @
             ''<volume-size>'' @ show_int (manifest_volume_size (int (length f))) @
               ''</volume-size>'' @
             ''<parts count='' @ DQ @ show_nat (length (part_ranges (length f))) @ DQ @ ''>'' @
             concat (map (\<lambda>(i, s, e).
               ''<part index='' @ DQ @ show_nat i @ DQ @ ''>'' @
               ''<byte-range start='' @ DQ @ show_nat s @ DQ @
                 '' end='' @ DQ @ show_nat e @ DQ @ ''/>'' @
               ''<key>'' @ nonce @ ''/part'' @ show_nat i @ ''</key>'' @
               ''<head-url>https://'' @ bucket @ ''.s3.amazonaws.com/'' @ nonce @ ''/part'' @
                 show_nat i @ ''?'' @ hq i @ ''</head-url>'' @
               ''<get-url>https://'' @ bucket @ ''.s3.amazonaws.com/'' @ nonce @ ''/part'' @
                 show_nat i @ ''?'' @ gq i @ ''</get-url>'' @
               ''<delete-url>https://'' @ bucket @ ''.s3.amazonaws.com/'' @ nonce @ ''/part'' @
                 show_nat i @ ''?'' @ dq i @ ''</delete-url>'' @
               ''</part>'') (part_ranges (length f))) @
             ''</parts></import></manifest>'' \<and>
           aws_sign_s3_headers x key_id key_secret region ''PUT'' bucket path manifest =
             Some (sha, date, auth) \<and>
           requests w' \<noteq> [] \<and>
           last (requests w') = Sent (s3_endpoint region)
             (''PUT '' @ path @ '' HTTP/1.1'' @ CRLF @
              ''Host: '' @ bucket @ ''.s3.amazonaws.com'' @ CRLF @
              ''X-Amz-Date: '' @ date @ CRLF @
              ''X-Amz-Content-SHA256: '' @ sha @ CRLF @
              ''Authorization: '' @ auth @ CRLF @
              ''Content-Length: '' @ show_nat (length manifest) @ CRLF @
              ''Connection: close'' @ CRLF @
              CRLF @ manifest)"
    by (intro exI conjI) (fact u(1) u(2) u(3) u(4) qa mt sg rq)+
  have c3: "length (part_ranges (length f)) = (length f + PARTSZ - 1) div PARTSZ"
    by (rule part_ranges_length)
  have c4: "(length (part_ranges (length f)) - 1) * PARTSZ < length f"
    unfolding part_ranges_length by (rule ceiling_parts(1) [OF assms(3)])
  have c5: "length f \<le> length (part_ranges (length f)) * PARTSZ"
    unfolding part_ranges_length by (rule ceiling_parts(2) [OF assms(3)])
  have c6: "map fst (part_ranges (length f)) = [0 ..< length (part_ranges (length f))]"
    by (simp add: part_ranges_def comp_def)
  have c7: "range_start (hd (part_ranges (length f))) = 0"
    by (rule part_ranges_first [OF assms(3)])
  have c8: "\<forall>i. i + 1 < length (part_ranges (length f)) \<longrightarrow>
           range_start (part_ranges (length f) ! (i + 1)) =
           range_end (part_ranges (length f) ! i) + 1"
    unfolding part_ranges_length using part_ranges_contiguous by blast
  have c9: "range_end (last (part_ranges (length f))) = length f - 1"
    by (rule part_ranges_last(1) [OF assms(3)])
  have c10: "\<forall>r \<in> set (part_ranges (length f)). range_start r \<le> range_end r"
    using part_ranges_nonempty(1) by blast
  have c11: "\<forall>i j. i < j \<and> j < length (part_ranges (length f)) \<longrightarrow>
           range_end (part_ranges (length f) ! i) < range_start (part_ranges (length f) ! j)"
    unfolding part_ranges_length using part_ranges_disjoint by blast
  have c12: "(\<Union>r \<in> set (part_ranges (length f)). {range_start r .. range_end r}) =
           {0 ..< length f}"
    by (rule part_ranges_cover)
  have c13: "range_end (last (part_ranges (length f))) - range_start (last (part_ranges (length f)))
           + 1 = length f - (length (part_ranges (length f)) - 1) * PARTSZ"
    unfolding part_ranges_length by (rule part_ranges_last(2) [OF assms(3)])
  show ?thesis
    by (intro conjI) (fact c1 c3 c4 c5 c6 c7 c8 c9 c10 c11 c12 c13)+
qed

lemma bounded_retry_events:
  assumes step: "\<And>w r w'. a w = (r, w') \<Longrightarrow> \<exists>evs. trace w' = trace w @ evs \<and> (\<forall>e \<in> set evs. Q e)"
    and rep: "\<And>i w. \<exists>evs. trace (rep i w) = trace w @ evs \<and> (\<forall>e \<in> set evs. Q e)"
  shows "bounded_retry a ok rep n i w = (r, w') \<Longrightarrow>
         \<exists>evs. trace w' = trace w @ evs \<and> (\<forall>e \<in> set evs. Q e)"
proof (induction n arbitrary: i w)
  case 0
  then show ?case by simp
next
  case (Suc n)
  obtain r1 w1 where p: "a w = (r1, w1)" by (cases "a w")
  from step [OF p] obtain e1 where e1: "trace w1 = trace w @ e1" "\<forall>e \<in> set e1. Q e" by blast
  show ?case
  proof (cases "ok r1")
    case True
    with Suc.prems p have "w' = w1" by simp
    with e1 show ?thesis by blast
  next
    case False
    with Suc.prems p
    have run: "bounded_retry a ok rep n (i + 1) (rep (i + 1) w1) = (r, w')" by simp
    from rep [of "i + 1" w1] obtain e2 where
      e2: "trace (rep (i + 1) w1) = trace w1 @ e2" "\<forall>e \<in> set e2. Q e" by blast
    from Suc.IH [OF run] obtain e3 where
      e3: "trace w' = trace (rep (i + 1) w1) @ e3" "\<forall>e \<in> set e3. Q e" by blast
    have "trace w' = trace w @ (e1 @ e2 @ e3)" using e1(1) e2(1) e3(1) by simp
    moreover have "\<forall>e \<in> set (e1 @ e2 @ e3). Q e" using e1(2) e2(2) e3(2) by auto
    ultimately show ?thesis by blast
  qed
qed

lemma s3_put_events_path:
  "s3_put x key_id key_secret region bucket path buf w = (r, w') \<Longrightarrow>
   \<exists>evs. trace w' = trace w @ evs \<and>
         (\<forall>e \<in> set evs. \<forall>host req. e = Sent host req \<longrightarrow>
            host = s3_endpoint region \<and> prefix (''PUT '' @ path @ '' HTTP/1.1'') req)"
  by (auto simp: s3_put_def warnp_def Let_def dest!: sslreq_trace
      split: option.splits prod.splits sum.splits if_splits)

lemma s3_put_loop_events_path:
  assumes "s3_put_loop x key_id key_secret region bucket path buf w = (r, w')"
  shows "\<exists>evs. trace w' = trace w @ evs \<and>
         (\<forall>e \<in> set evs. \<forall>host req. e = Sent host req \<longrightarrow>
            host = s3_endpoint region \<and> prefix (''PUT '' @ path @ '' HTTP/1.1'') req)"
proof -
  obtain r0 where
    "bounded_retry (s3_put x key_id key_secret region bucket path buf) (\<lambda>r. r = 0)
       (\<lambda>j. s3_put_failed j path) 10 0 w = (r0, w')"
    using assms s3_put_loop_from_eq [of 0 10 x key_id key_secret region bucket path buf w]
    by (auto simp: s3_put_loop_def split: prod.splits option.splits)
  then show ?thesis
  proof (rule bounded_retry_events [rotated 2])
    fix w r w'
    assume "s3_put x key_id key_secret region bucket path buf w = (r, w')"
    then show "\<exists>evs. trace w' = trace w @ evs \<and>
         (\<forall>e \<in> set evs. \<forall>host req. e = Sent host req \<longrightarrow>
            host = s3_endpoint region \<and> prefix (''PUT '' @ path @ '' HTTP/1.1'') req)"
      by (rule s3_put_events_path)
  next
    fix i w
    show "\<exists>evs. trace (s3_put_failed i path w) = trace w @ evs \<and>
         (\<forall>e \<in> set evs. \<forall>host req. e = Sent host req \<longrightarrow>
            host = s3_endpoint region \<and> prefix (''PUT '' @ path @ '' HTTP/1.1'') req)"
      by (simp add: s3_put_failed_def fprintf_stderr_def)
  qed
qed

lemma s3_put_ok_reply:
  assumes sign: "aws_sign_s3_headers x key_id key_secret region ''PUT'' bucket path buf \<noteq> None"
    and script: "replies w = ok_reply body # rest"
    and body: "NUL \<notin> set body" "length body \<le> 16365"
  shows "\<exists>req. s3_put x key_id key_secret region bucket path buf w =
           (0, emit (Sent (s3_endpoint region) req) (w\<lparr>replies := rest\<rparr>))"
proof -
  define resp where "resp = ''HTTP/1.1 200 OK'' @ CRLF @ CRLF @ body"
  have r1: "cstr resp = resp"
    using body by (intro cstr_no_NUL) (simp add: resp_def)
  have r2: "take 16384 resp = resp"
    using body by (simp add: resp_def)
  have r3: "status_200 resp"
    unfolding resp_def by (rule ok_reply_status)
  have rep: "replies w = Inr resp # rest"
    using script by (simp add: ok_reply_def resp_def)
  obtain sha date auth where
    sg: "aws_sign_s3_headers x key_id key_secret region ''PUT'' bucket path buf =
           Some (sha, date, auth)"
    using sign
    by (cases "aws_sign_s3_headers x key_id key_secret region ''PUT'' bucket path buf") auto
  show ?thesis
    unfolding s3_put_def sslreq_def Let_def
    using sg rep r1 r2 r3 by auto
qed

lemma s3_put_loop_ok_reply:
  assumes sign: "aws_sign_s3_headers x key_id key_secret region ''PUT'' bucket path buf \<noteq> None"
    and script: "replies w = ok_reply body # rest"
    and body: "NUL \<notin> set body" "length body \<le> 16365"
  shows "\<exists>req. s3_put_loop x key_id key_secret region bucket path buf w =
           (0, emit (Sent (s3_endpoint region) req) (w\<lparr>replies := rest\<rparr>))"
proof -
  from s3_put_ok_reply [OF assms] obtain req where
    "s3_put x key_id key_secret region bucket path buf w =
       (0, emit (Sent (s3_endpoint region) req) (w\<lparr>replies := rest\<rparr>))"
    by blast
  then show ?thesis
    by (auto simp: s3_put_loop_def s3_put_loop_from.simps [of 0])
qed

lemma uploadvolume_run:
  assumes "noncehex x = Some nonce"
    and "files w fname = Some f"
    and "aws_sign_s3_querystr x key_id key_secret region ''DELETE'' bucket
           (''/'' @ nonce @ ''/manifest.xml'') 604800 = Some query0"
    and "NUL \<notin> set query0"
  shows "uploadvolume x fname region bucket key_id key_secret w =
     (case uploadvolume_parts x fname region bucket key_id key_secret nonce (length f) 0 PARTSZ f
             (manifest_start bucket (''/'' @ nonce @ ''/manifest.xml'') (amp_escaped query0)
                (int (length f)))
             (fprintf_stderr
                (''Uploading '' @ fname @ '' to'' @ [LF] @
                 ''http://'' @ bucket @ ''.s3.amazonaws.com/'' @ nonce @ ''/'' @ [LF] @
                 ''in '' @ show_int (manifest_parts_count (int (length f))) @ '' part(s)'') w) of
        (None, w1) \<Rightarrow> (None, w1)
      | (Some manifest1, w1) \<Rightarrow>
          (case s3_put_loop x key_id key_secret region bucket (''/'' @ nonce @ ''/manifest.xml'')
                  (manifest1 @ ''</parts></import></manifest>'')
                  (fprintf_stderr ''Uploading volume manifest...''
                     (fprintf_stderr ('' done.'' @ [LF]) w1)) of
             (r, w4) \<Rightarrow>
               if r \<noteq> 0 then (None, w4)
               else (Some (''/'' @ nonce @ ''/manifest.xml'', int (length f)),
                     fprintf_stderr ('' done.'' @ [LF]) w4)))"
  unfolding uploadvolume_def Let_def
  using assms(1,2,3) encodeamp_eq [OF assms(4), of NUL]
  by (simp split: prod.splits option.splits)


lemma part_block_demo:
  "\<exists>block. part_block demo_ext key_id key_secret region bucket nonce idx first_byte last_byte =
            Some block"
proof -
  have q: "presigned_query demo_ext key_id key_secret region m bucket path =
           Some (amp_escaped (''X-Amz-Expires=604800&X-Amz-Signature='' @ m))"
    if "NUL \<notin> set m" for m path
  proof -
    have "NUL \<notin> set (''X-Amz-Expires=604800&X-Amz-Signature='' @ m)"
      using that by simp
    from encodeamp_eq [OF this, of NUL] show ?thesis
      by (simp add: presigned_query_def demo_ext_def)
  qed
  have "NUL \<notin> set ''HEAD''" "NUL \<notin> set ''GET''" "NUL \<notin> set ''DELETE''" by simp_all
  then show ?thesis
    by (simp add: part_block_def Let_def q)
qed

lemma uploadvolume_small:
  assumes f: "0 < length f" "length f \<le> PARTSZ"
    and fl: "files w fname = Some f"
    and script: "replies w = ok_reply [] # ok_reply [] # rest"
  shows "\<exists>w'. uploadvolume demo_ext fname region bucket key_id key_secret w =
                (Some (''/00112233445566778899aabbccddeeff/manifest.xml'', int (length f)), w') \<and>
              replies w' = rest"
proof -
  let ?x = demo_ext
  let ?nonce = "''00112233445566778899aabbccddeeff''"
  let ?path = "''/'' @ ?nonce @ ''/manifest.xml''"
  define m0 where "m0 = manifest_start bucket ?path
      (amp_escaped (''X-Amz-Expires=604800&X-Amz-Signature='' @ ''DELETE'')) (int (length f))"
  define wA where "wA = fprintf_stderr
                (''Uploading '' @ fname @ '' to'' @ [LF] @
                 ''http://'' @ bucket @ ''.s3.amazonaws.com/'' @ ?nonce @ ''/'' @ [LF] @
                 ''in '' @ show_int (manifest_parts_count (int (length f))) @ '' part(s)'') w"
  have sign: "aws_sign_s3_headers ?x k s r m b p buf \<noteq> None" for k s r m b p buf
    by (simp add: demo_ext_def)
  have run: "uploadvolume ?x fname region bucket key_id key_secret w =
     (case uploadvolume_parts ?x fname region bucket key_id key_secret ?nonce
             (length f) 0 PARTSZ f m0 wA of
        (None, w1) \<Rightarrow> (None, w1)
      | (Some manifest1, w1) \<Rightarrow>
          (case s3_put_loop ?x key_id key_secret region bucket ?path
                  (manifest1 @ ''</parts></import></manifest>'')
                  (fprintf_stderr ''Uploading volume manifest...''
                     (fprintf_stderr ('' done.'' @ [LF]) w1)) of
             (r, w4) \<Rightarrow>
               if r \<noteq> 0 then (None, w4)
               else (Some (?path, int (length f)), fprintf_stderr ('' done.'' @ [LF]) w4)))"
    unfolding m0_def wA_def
    by (rule uploadvolume_run) (simp_all add: demo_ext_def fl)
  have rA: "replies (fprintf_stderr ''.'' wA) = ok_reply [] # (ok_reply [] # rest)"
    by (simp add: wA_def script fprintf_stderr_def)
  have e: "NUL \<notin> set []" "length ([] :: char list) \<le> 16365" by simp_all
  from s3_put_loop_ok_reply [OF sign rA e] obtain req1 where
    p1: "s3_put_loop ?x key_id key_secret region bucket
           (''/'' @ ?nonce @ ''/part'' @ show_nat (0 div PARTSZ)) f (fprintf_stderr ''.'' wA) =
         (0, emit (Sent (s3_endpoint region) req1)
               ((fprintf_stderr ''.'' wA)\<lparr>replies := ok_reply [] # rest\<rparr>))"
    by blast
  define w1 where "w1 = emit (Sent (s3_endpoint region) req1)
               ((fprintf_stderr ''.'' wA)\<lparr>replies := ok_reply [] # rest\<rparr>)"
  obtain block where blk:
    "part_block ?x key_id key_secret region bucket ?nonce (0 div PARTSZ) 0
       (0 + min (length f - 0) PARTSZ - 1) = Some block"
    using part_block_demo by blast
  have rd: "fread (min (length f - 0) PARTSZ) f = Some (f, [])"
    using f by (simp add: fread_def min_def)
  have fin: "uploadvolume_parts ?x fname region bucket key_id key_secret ?nonce
             (length f) (0 + min (length f - 0) PARTSZ) (min (length f - 0) PARTSZ) []
             (m0 @ block) w1 = (Some (m0 @ block), w1)"
    using f by (subst uploadvolume_parts.simps) (simp add: min_def)
  have parts: "uploadvolume_parts ?x fname region bucket key_id key_secret ?nonce
             (length f) 0 PARTSZ f m0 wA = (Some (m0 @ block), w1)"
    unfolding uploadvolume_parts_step [OF f(1)]
    using rd p1 [folded w1_def] blk fin by blast
  have r1: "replies (fprintf_stderr ''Uploading volume manifest...''
                     (fprintf_stderr ('' done.'' @ [LF]) w1)) = ok_reply [] # rest"
    by (simp add: w1_def fprintf_stderr_def)
  from s3_put_loop_ok_reply [OF sign r1 e] obtain req2 where
    p2: "s3_put_loop ?x key_id key_secret region bucket ?path
           ((m0 @ block) @ ''</parts></import></manifest>'')
           (fprintf_stderr ''Uploading volume manifest...''
                     (fprintf_stderr ('' done.'' @ [LF]) w1)) =
         (0, emit (Sent (s3_endpoint region) req2)
               ((fprintf_stderr ''Uploading volume manifest...''
                     (fprintf_stderr ('' done.'' @ [LF]) w1))\<lparr>replies := rest\<rparr>))"
    by blast
  show ?thesis
    unfolding run parts using p2 by (simp add: fprintf_stderr_def)
qed

lemma presigned_query_demo:
  assumes "NUL \<notin> set m"
  shows "presigned_query demo_ext key_id key_secret region m bucket path =
           Some (amp_escaped (''X-Amz-Expires=604800&X-Amz-Signature='' @ m))"
proof -
  have "NUL \<notin> set (''X-Amz-Expires=604800&X-Amz-Signature='' @ m)"
    using assms by simp
  from encodeamp_eq [OF this, of NUL] show ?thesis
    by (simp add: presigned_query_def demo_ext_def)
qed

lemma parts_left:
  assumes "0 < d"
  shows "(d + PARTSZ - 1) div PARTSZ = Suc ((d - min d PARTSZ + PARTSZ - 1) div PARTSZ)"
proof -
  have P: "0 < PARTSZ" by (simp add: PARTSZ_def)
  show ?thesis
  proof (cases "d \<le> PARTSZ")
    case True
    have "(d + PARTSZ - 1) div PARTSZ = 1"
    proof (rule div_nat_eqI)
      show "PARTSZ * 1 \<le> d + PARTSZ - 1" using assms by simp
      show "d + PARTSZ - 1 < PARTSZ * Suc 1" using True P by simp
    qed
    moreover have "(d - min d PARTSZ + PARTSZ - 1) div PARTSZ = 0"
      using True P by (simp add: min_def)
    ultimately show ?thesis by simp
  next
    case False
    then have m: "min d PARTSZ = PARTSZ" by simp
    have "d + PARTSZ - 1 = (d - PARTSZ + PARTSZ - 1) + PARTSZ"
      using False P by simp
    then have "(d + PARTSZ - 1) div PARTSZ = ((d - PARTSZ + PARTSZ - 1) + PARTSZ) div PARTSZ"
      by simp
    also have "\<dots> = Suc ((d - PARTSZ + PARTSZ - 1) div PARTSZ)"
      using P by (simp only: div_add_self2)
    finally show ?thesis unfolding m .
  qed
qed

lemma uploadvolume_parts_demo:
  assumes "length f = n - pos" "pos < n \<longrightarrow> buflen = PARTSZ"
    and "replies w = replicate ((n - pos + PARTSZ - 1) div PARTSZ) (ok_reply []) @ rest"
  shows "\<exists>m' w'. uploadvolume_parts demo_ext fname region bucket key_id key_secret nonce n pos
                   buflen f m w = (Some m', w') \<and> replies w' = rest"
  using assms
proof (induction "n - pos" arbitrary: pos buflen f m w rule: less_induct)
  case less
  have P: "0 < PARTSZ" by (simp add: PARTSZ_def)
  show ?case
  proof (cases "pos < n")
    case False
    then have "(n - pos + PARTSZ - 1) div PARTSZ = 0"
      using P by simp
    with less.prems(3) have "replies w = rest" by simp
    moreover from False
    have "uploadvolume_parts demo_ext fname region bucket key_id key_secret nonce n pos buflen f m w =
          (Some m, w)"
      by (subst uploadvolume_parts.simps) simp
    ultimately show ?thesis by simp
  next
    case True
    with less.prems(2) have bl: "buflen = PARTSZ" by simp
    define b where "b = min (n - pos) buflen"
    have b0: "0 < b" "b \<le> n - pos"
      using True P bl by (simp_all add: b_def)
    define k where "k = (n - (pos + b) + PARTSZ - 1) div PARTSZ"
    have e: "n - pos - min (n - pos) PARTSZ = n - (pos + b)"
      unfolding b_def bl by simp
    have "0 < n - pos" using True by simp
    from parts_left [OF this, unfolded e]
    have cnt: "(n - pos + PARTSZ - 1) div PARTSZ = Suc k"
      unfolding k_def .
    have script: "replies (fprintf_stderr ''.'' w) = ok_reply [] # (replicate k (ok_reply []) @ rest)"
      using less.prems(3) unfolding cnt by (simp add: fprintf_stderr_def)
    have rd: "fread b f = Some (take b f, drop b f)"
      using b0 less.prems(1) by (simp add: fread_def)
    have sign: "aws_sign_s3_headers demo_ext key_id key_secret region ''PUT'' bucket
                  (''/'' @ nonce @ ''/part'' @ show_nat (pos div PARTSZ)) (take b f) \<noteq> None"
      by (simp add: demo_ext_def)
    have e: "NUL \<notin> set []" "length ([] :: char list) \<le> 16365" by simp_all
    from s3_put_loop_ok_reply [OF sign script e] obtain req where
      put: "s3_put_loop demo_ext key_id key_secret region bucket
              (''/'' @ nonce @ ''/part'' @ show_nat (pos div PARTSZ)) (take b f)
              (fprintf_stderr ''.'' w) =
            (0, emit (Sent (s3_endpoint region) req)
                  ((fprintf_stderr ''.'' w)\<lparr>replies := replicate k (ok_reply []) @ rest\<rparr>))"
      by blast
    define w1 where "w1 = emit (Sent (s3_endpoint region) req)
                  ((fprintf_stderr ''.'' w)\<lparr>replies := replicate k (ok_reply []) @ rest\<rparr>)"
    obtain block where blk:
      "part_block demo_ext key_id key_secret region bucket nonce (pos div PARTSZ) pos
         (pos + b - 1) = Some block"
      using part_block_demo by blast
    have d: "n - (pos + b) < n - pos" using True b0 by simp
    have l: "length (drop b f) = n - (pos + b)"
      using less.prems(1) by simp
    have inv: "pos + b < n \<longrightarrow> b = PARTSZ"
      using True unfolding b_def bl by linarith
    have r1: "replies w1 = replicate ((n - (pos + b) + PARTSZ - 1) div PARTSZ) (ok_reply []) @ rest"
      by (simp add: w1_def k_def)
    from less.hyps [OF d l inv r1, of "m @ block"] obtain m' w' where
      rest: "uploadvolume_parts demo_ext fname region bucket key_id key_secret nonce n (pos + b) b
               (drop b f) (m @ block) w1 = (Some m', w')"
      and fin: "replies w' = rest"
      by blast
    have "uploadvolume_parts demo_ext fname region bucket key_id key_secret nonce n pos buflen f m w =
          (Some m', w')"
      unfolding uploadvolume_parts_step [OF True] b_def [symmetric]
      using rd put [folded w1_def] blk rest by blast
    with fin show ?thesis by blast
  qed
qed

lemma uploadvolume_demo:
  assumes fl: "files w fname = Some f"
    and script: "replies w =
                   replicate ((length f + PARTSZ - 1) div PARTSZ) (ok_reply []) @ ok_reply [] # rest"
  shows "\<exists>w'. uploadvolume demo_ext fname region bucket key_id key_secret w =
                (Some (''/00112233445566778899aabbccddeeff/manifest.xml'', int (length f)), w') \<and>
              replies w' = rest"
proof -
  let ?x = demo_ext
  let ?nonce = "''00112233445566778899aabbccddeeff''"
  let ?path = "''/'' @ ?nonce @ ''/manifest.xml''"
  define m0 where "m0 = manifest_start bucket ?path
      (amp_escaped (''X-Amz-Expires=604800&X-Amz-Signature='' @ ''DELETE'')) (int (length f))"
  define wA where "wA = fprintf_stderr
                (''Uploading '' @ fname @ '' to'' @ [LF] @
                 ''http://'' @ bucket @ ''.s3.amazonaws.com/'' @ ?nonce @ ''/'' @ [LF] @
                 ''in '' @ show_int (manifest_parts_count (int (length f))) @ '' part(s)'') w"
  have run: "uploadvolume ?x fname region bucket key_id key_secret w =
     (case uploadvolume_parts ?x fname region bucket key_id key_secret ?nonce
             (length f) 0 PARTSZ f m0 wA of
        (None, w1) \<Rightarrow> (None, w1)
      | (Some manifest1, w1) \<Rightarrow>
          (case s3_put_loop ?x key_id key_secret region bucket ?path
                  (manifest1 @ ''</parts></import></manifest>'')
                  (fprintf_stderr ''Uploading volume manifest...''
                     (fprintf_stderr ('' done.'' @ [LF]) w1)) of
             (r, w4) \<Rightarrow>
               if r \<noteq> 0 then (None, w4)
               else (Some (?path, int (length f)), fprintf_stderr ('' done.'' @ [LF]) w4)))"
    unfolding m0_def wA_def
    by (rule uploadvolume_run) (simp_all add: demo_ext_def fl)
  have rA: "replies wA = replicate ((length f - 0 + PARTSZ - 1) div PARTSZ) (ok_reply []) @
              (ok_reply [] # rest)"
    by (simp add: wA_def script fprintf_stderr_def)
  from uploadvolume_parts_demo [OF _ _ rA, of f PARTSZ fname region bucket key_id key_secret
      ?nonce m0]
  obtain m1 w1 where
    parts: "uploadvolume_parts ?x fname region bucket key_id key_secret ?nonce (length f) 0 PARTSZ
              f m0 wA = (Some m1, w1)"
    and r1: "replies w1 = ok_reply [] # rest"
    by auto
  have sign: "aws_sign_s3_headers ?x k s r m b p buf \<noteq> None" for k s r m b p buf
    by (simp add: demo_ext_def)
  have r1': "replies (fprintf_stderr ''Uploading volume manifest...''
                     (fprintf_stderr ('' done.'' @ [LF]) w1)) = ok_reply [] # rest"
    by (simp add: r1 fprintf_stderr_def)
  have e: "NUL \<notin> set []" "length ([] :: char list) \<le> 16365" by simp_all
  from s3_put_loop_ok_reply [OF sign r1' e] obtain req2 where
    p2: "s3_put_loop ?x key_id key_secret region bucket ?path
           (m1 @ ''</parts></import></manifest>'')
           (fprintf_stderr ''Uploading volume manifest...''
                     (fprintf_stderr ('' done.'' @ [LF]) w1)) =
         (0, emit (Sent (s3_endpoint region) req2)
               ((fprintf_stderr ''Uploading volume manifest...''
                     (fprintf_stderr ('' done.'' @ [LF]) w1))\<lparr>replies := rest\<rparr>))"
    by blast
  show ?thesis
    unfolding run parts using p2 by (simp add: fprintf_stderr_def)
qed

lemma show_nat_samples:
  "show_nat 0 = ''0''" "show_nat 1 = ''1''" "show_nat (Suc 0) = ''1''" "show_nat 2 = ''2''"
  "show_nat (Suc (Suc 0)) = ''2''"
  "show_nat 486 = ''486''" "show_nat 1530 = ''1530''"
  "show_nat 10485759 = ''10485759''" "show_nat 10485760 = ''10485760''"
  "show_nat 10485761 = ''10485761''"
  by (simp_all add: show_nat.simps)

theorem uploadvolume_manifest_parts_witness:
  "\<exists>w'. uploadvolume demo_ext ''disk.img'' ''us-west-2'' ''bkt'' ''AKID'' ''secret''
          (image_world ''disk.img'' (replicate PARTSZ (CHR ''a'') @ ''b'')
             [ok_reply [], ok_reply [], ok_reply []]) =
          (Some (''/00112233445566778899aabbccddeeff/manifest.xml'', int (PARTSZ + 1)), w') \<and>
        last (requests w') = Sent ''s3.us-west-2.amazonaws.com''
          (''PUT /00112233445566778899aabbccddeeff/manifest.xml HTTP/1.1'' @ CRLF @
           ''Host: bkt.s3.amazonaws.com'' @ CRLF @
           ''X-Amz-Date: 20190320T000000Z'' @ CRLF @
           ''X-Amz-Content-SHA256: e3b0c442'' @ CRLF @
           ''Authorization: AWS4 sig'' @ CRLF @
           ''Content-Length: 1530'' @ CRLF @
           ''Connection: close'' @ CRLF @
           CRLF @
           ''<?xml version='' @ DQ @ ''1.0'' @ DQ @ '' encoding='' @ DQ @ ''UTF-8'' @ DQ @
             '' standalone='' @ DQ @ ''yes'' @ DQ @ ''?>'' @
           ''<manifest>'' @
           ''<version>2010-11-15</version>'' @
           ''<file-format>RAW</file-format>'' @
           ''<importer>'' @
           ''<name>bsdec2-image-upload</name>'' @
           ''<version>1.2.2</version>'' @
           ''<release>2019-03-20</release>'' @
           ''</importer>'' @
           ''<self-destruct-url>https://bkt.s3.amazonaws.com'' @
             ''/00112233445566778899aabbccddeeff/manifest.xml?'' @
             ''X-Amz-Expires=604800&amp;X-Amz-Signature=DELETE</self-destruct-url>'' @
           ''<import>'' @
           ''<size>10485761</size>'' @
           ''<volume-size>1</volume-size>'' @
           ''<parts count='' @ DQ @ ''2'' @ DQ @ ''>'' @
           ''<part index='' @ DQ @ ''0'' @ DQ @ ''>'' @
           ''<byte-range start='' @ DQ @ ''0'' @ DQ @ '' end='' @ DQ @ ''10485759'' @ DQ @ ''/>'' @
           ''<key>00112233445566778899aabbccddeeff/part0</key>'' @
           ''<head-url>https://bkt.s3.amazonaws.com/00112233445566778899aabbccddeeff/part0?'' @
             ''X-Amz-Expires=604800&amp;X-Amz-Signature=HEAD</head-url>'' @
           ''<get-url>https://bkt.s3.amazonaws.com/00112233445566778899aabbccddeeff/part0?'' @
             ''X-Amz-Expires=604800&amp;X-Amz-Signature=GET</get-url>'' @
           ''<delete-url>https://bkt.s3.amazonaws.com/00112233445566778899aabbccddeeff/part0?'' @
             ''X-Amz-Expires=604800&amp;X-Amz-Signature=DELETE</delete-url>'' @
           ''</part>'' @
           ''<part index='' @ DQ @ ''1'' @ DQ @ ''>'' @
           ''<byte-range start='' @ DQ @ ''10485760'' @ DQ @ '' end='' @ DQ @ ''10485760'' @ DQ @
             ''/>'' @
           ''<key>00112233445566778899aabbccddeeff/part1</key>'' @
           ''<head-url>https://bkt.s3.amazonaws.com/00112233445566778899aabbccddeeff/part1?'' @
             ''X-Amz-Expires=604800&amp;X-Amz-Signature=HEAD</head-url>'' @
           ''<get-url>https://bkt.s3.amazonaws.com/00112233445566778899aabbccddeeff/part1?'' @
             ''X-Amz-Expires=604800&amp;X-Amz-Signature=GET</get-url>'' @
           ''<delete-url>https://bkt.s3.amazonaws.com/00112233445566778899aabbccddeeff/part1?'' @
             ''X-Amz-Expires=604800&amp;X-Amz-Signature=DELETE</delete-url>'' @
           ''</part>'' @
           ''</parts></import></manifest>'') \<and>
        part_ranges (PARTSZ + 1) = [(0, 0, 10485759), (1, 10485760, 10485760)] \<and>
        range_start (part_ranges (PARTSZ + 1) ! 1) = range_end (part_ranges (PARTSZ + 1) ! 0) + 1 \<and>
        range_end (part_ranges (PARTSZ + 1) ! 0) < range_start (part_ranges (PARTSZ + 1) ! 1) \<and>
        range_start (part_ranges (PARTSZ + 1) ! 0) \<le> range_end (part_ranges (PARTSZ + 1) ! 0) \<and>
        range_start (part_ranges (PARTSZ + 1) ! 1) \<le> range_end (part_ranges (PARTSZ + 1) ! 1)"
proof -
  let ?f = "replicate PARTSZ (CHR ''a'') @ ''b''"
  let ?w = "image_world ''disk.img'' ?f [ok_reply [], ok_reply [], ok_reply []]"
  let ?nonce = "''00112233445566778899aabbccddeeff''"
  have len: "length ?f = PARTSZ + 1" by simp
  have two: "(PARTSZ + 1 + PARTSZ - 1) div PARTSZ = 2"
    by (simp add: PARTSZ_def)
  have fl: "files ?w ''disk.img'' = Some ?f"
    by (simp add: image_world_def)
  have "replies ?w = replicate 2 (ok_reply []) @ ok_reply [] # []"
    by (simp add: image_world_def numeral_2_eq_2)
  then have script: "replies ?w =
      replicate ((length ?f + PARTSZ - 1) div PARTSZ) (ok_reply []) @ ok_reply [] # []"
    unfolding len two .
  from uploadvolume_demo [OF fl script] obtain w' where
    run: "uploadvolume demo_ext ''disk.img'' ''us-west-2'' ''bkt'' ''AKID'' ''secret'' ?w =
            (Some (''/00112233445566778899aabbccddeeff/manifest.xml'', int (length ?f)), w')"
    by blast
  have pos: "0 < length ?f" by simp
  have "PARTSZ + 1 + PARTSZ \<le> 2 ^ 63" by (simp add: PARTSZ_def)
  then have bound: "length ?f + PARTSZ \<le> 2 ^ 63"
    unfolding len .
  have "[0 ..< (2::nat)] = [0, 1]"
    by (simp add: upt_conv_Cons)
  then have ranges: "part_ranges (PARTSZ + 1) = [(0, 0, 10485759), (1, 10485760, 10485760)]"
    by (simp add: part_ranges_def PARTSZ_def)
  have sz: "PARTSZ + 1 = 10485761" by (simp add: PARTSZ_def)
  have vol: "manifest_volume_size (int (PARTSZ + 1)) = 1"
    by (simp add: manifest_volume_size_def wrap_s64_def wrap_s32_def trunc_div_def PARTSZ_def)
  have szs: "show_nat (PARTSZ + 1) = ''10485761''"
    by (simp add: PARTSZ_def show_nat_samples)
  note t = uploadvolume_manifest_parts [OF run fl pos bound, unfolded len]
  from t obtain nonce query hq gq dq sha date auth manifest where
    n: "noncehex demo_ext = Some nonce"
    and q0: "presigned_query demo_ext ''AKID'' ''secret'' ''us-west-2'' ''DELETE'' ''bkt''
               ''/00112233445566778899aabbccddeeff/manifest.xml'' = Some query"
    and qs: "\<forall>i < length (part_ranges (PARTSZ + 1)).
              presigned_query demo_ext ''AKID'' ''secret'' ''us-west-2'' ''HEAD'' ''bkt''
                (''/'' @ nonce @ ''/part'' @ show_nat i) = Some (hq i) \<and>
              presigned_query demo_ext ''AKID'' ''secret'' ''us-west-2'' ''GET'' ''bkt''
                (''/'' @ nonce @ ''/part'' @ show_nat i) = Some (gq i) \<and>
              presigned_query demo_ext ''AKID'' ''secret'' ''us-west-2'' ''DELETE'' ''bkt''
                (''/'' @ nonce @ ''/part'' @ show_nat i) = Some (dq i)"
    and m: "manifest =
             ''<?xml version='' @ DQ @ ''1.0'' @ DQ @ '' encoding='' @ DQ @ ''UTF-8'' @ DQ @
               '' standalone='' @ DQ @ ''yes'' @ DQ @ ''?>'' @
             ''<manifest>'' @
             ''<version>2010-11-15</version>'' @
             ''<file-format>RAW</file-format>'' @
             ''<importer>'' @
             ''<name>bsdec2-image-upload</name>'' @
             ''<version>1.2.2</version>'' @
             ''<release>2019-03-20</release>'' @
             ''</importer>'' @
             ''<self-destruct-url>https://'' @ ''bkt'' @ ''.s3.amazonaws.com'' @
               ''/00112233445566778899aabbccddeeff/manifest.xml'' @ ''?'' @
               query @ ''</self-destruct-url>'' @
             ''<import>'' @
             ''<size>'' @ show_nat (PARTSZ + 1) @ ''</size>'' @
             ''<volume-size>'' @ show_int (manifest_volume_size (int (PARTSZ + 1))) @
               ''</volume-size>'' @
             ''<parts count='' @ DQ @ show_nat (length (part_ranges (PARTSZ + 1))) @ DQ @ ''>'' @
             concat (map (\<lambda>(i, s, e).
               ''<part index='' @ DQ @ show_nat i @ DQ @ ''>'' @
               ''<byte-range start='' @ DQ @ show_nat s @ DQ @
                 '' end='' @ DQ @ show_nat e @ DQ @ ''/>'' @
               ''<key>'' @ nonce @ ''/part'' @ show_nat i @ ''</key>'' @
               ''<head-url>https://'' @ ''bkt'' @ ''.s3.amazonaws.com/'' @ nonce @ ''/part'' @
                 show_nat i @ ''?'' @ hq i @ ''</head-url>'' @
               ''<get-url>https://'' @ ''bkt'' @ ''.s3.amazonaws.com/'' @ nonce @ ''/part'' @
                 show_nat i @ ''?'' @ gq i @ ''</get-url>'' @
               ''<delete-url>https://'' @ ''bkt'' @ ''.s3.amazonaws.com/'' @ nonce @ ''/part'' @
                 show_nat i @ ''?'' @ dq i @ ''</delete-url>'' @
               ''</part>'') (part_ranges (PARTSZ + 1))) @
             ''</parts></import></manifest>''"
    and sg: "aws_sign_s3_headers demo_ext ''AKID'' ''secret'' ''us-west-2'' ''PUT'' ''bkt''
               ''/00112233445566778899aabbccddeeff/manifest.xml'' manifest = Some (sha, date, auth)"
    and lr: "last (requests w') = Sent (s3_endpoint ''us-west-2'')
             (''PUT '' @ ''/00112233445566778899aabbccddeeff/manifest.xml'' @ '' HTTP/1.1'' @ CRLF @
              ''Host: '' @ ''bkt'' @ ''.s3.amazonaws.com'' @ CRLF @
              ''X-Amz-Date: '' @ date @ CRLF @
              ''X-Amz-Content-SHA256: '' @ sha @ CRLF @
              ''Authorization: '' @ auth @ CRLF @
              ''Content-Length: '' @ show_nat (length manifest) @ CRLF @
              ''Connection: close'' @ CRLF @
              CRLF @ manifest)"
    and contiguous: "\<forall>i. i + 1 < length (part_ranges (PARTSZ + 1)) \<longrightarrow>
           range_start (part_ranges (PARTSZ + 1) ! (i + 1)) =
           range_end (part_ranges (PARTSZ + 1) ! i) + 1"
    and nonempty: "\<forall>r \<in> set (part_ranges (PARTSZ + 1)). range_start r \<le> range_end r"
    and disjoint: "\<forall>i j. i < j \<and> j < length (part_ranges (PARTSZ + 1)) \<longrightarrow>
           range_end (part_ranges (PARTSZ + 1) ! i) < range_start (part_ranges (PARTSZ + 1) ! j)"
    by (elim conjE exE) (rule that; assumption)
  have l2: "length (part_ranges (PARTSZ + 1)) = 2"
    unfolding ranges by simp
  from contiguous [rule_format, of 0]
  have a1: "range_start (part_ranges (PARTSZ + 1) ! 1) = range_end (part_ranges (PARTSZ + 1) ! 0) + 1"
    unfolding l2 by simp
  from disjoint [rule_format, of 0 1]
  have a2: "range_end (part_ranges (PARTSZ + 1) ! 0) < range_start (part_ranges (PARTSZ + 1) ! 1)"
    unfolding l2 by simp
  have "part_ranges (PARTSZ + 1) ! 0 \<in> set (part_ranges (PARTSZ + 1))"
    "part_ranges (PARTSZ + 1) ! 1 \<in> set (part_ranges (PARTSZ + 1))"
    unfolding ranges by simp_all
  with nonempty
  have a3: "range_start (part_ranges (PARTSZ + 1) ! 0) \<le> range_end (part_ranges (PARTSZ + 1) ! 0)"
    "range_start (part_ranges (PARTSZ + 1) ! 1) \<le> range_end (part_ranges (PARTSZ + 1) ! 1)"
    by blast+
  have nonce: "nonce = ?nonce"
    using n by (simp add: demo_ext_def)
  have pq: "presigned_query demo_ext ''AKID'' ''secret'' ''us-west-2'' meth ''bkt'' path =
            Some (''X-Amz-Expires=604800&amp;X-Amz-Signature='' @ meth)"
    if "meth \<in> {''HEAD'', ''GET'', ''DELETE''}" for meth path
    using that presigned_query_demo [of meth "''AKID''" "''secret''" "''us-west-2''" "''bkt''" path]
    by (auto simp: amp_escaped_def)
  have query: "query = ''X-Amz-Expires=604800&amp;X-Amz-Signature=DELETE''"
    using q0 pq [of "''DELETE''"] by simp
  have "0 < length (part_ranges (PARTSZ + 1))" "1 < length (part_ranges (PARTSZ + 1))"
    unfolding l2 by simp_all
  with qs have
    "presigned_query demo_ext ''AKID'' ''secret'' ''us-west-2'' ''HEAD'' ''bkt''
       (''/'' @ nonce @ ''/part'' @ show_nat 0) = Some (hq 0)"
    "presigned_query demo_ext ''AKID'' ''secret'' ''us-west-2'' ''GET'' ''bkt''
       (''/'' @ nonce @ ''/part'' @ show_nat 0) = Some (gq 0)"
    "presigned_query demo_ext ''AKID'' ''secret'' ''us-west-2'' ''DELETE'' ''bkt''
       (''/'' @ nonce @ ''/part'' @ show_nat 0) = Some (dq 0)"
    "presigned_query demo_ext ''AKID'' ''secret'' ''us-west-2'' ''HEAD'' ''bkt''
       (''/'' @ nonce @ ''/part'' @ show_nat 1) = Some (hq 1)"
    "presigned_query demo_ext ''AKID'' ''secret'' ''us-west-2'' ''GET'' ''bkt''
       (''/'' @ nonce @ ''/part'' @ show_nat 1) = Some (gq 1)"
    "presigned_query demo_ext ''AKID'' ''secret'' ''us-west-2'' ''DELETE'' ''bkt''
       (''/'' @ nonce @ ''/part'' @ show_nat 1) = Some (dq 1)"
    by blast+
  then have urls:
    "hq 0 = ''X-Amz-Expires=604800&amp;X-Amz-Signature=HEAD''"
    "gq 0 = ''X-Amz-Expires=604800&amp;X-Amz-Signature=GET''"
    "dq 0 = ''X-Amz-Expires=604800&amp;X-Amz-Signature=DELETE''"
    "hq (Suc 0) = ''X-Amz-Expires=604800&amp;X-Amz-Signature=HEAD''"
    "gq (Suc 0) = ''X-Amz-Expires=604800&amp;X-Amz-Signature=GET''"
    "dq (Suc 0) = ''X-Amz-Expires=604800&amp;X-Amz-Signature=DELETE''"
    using pq [of "''HEAD''"] pq [of "''GET''"] pq [of "''DELETE''"] by simp_all
  have signed: "sha = ''e3b0c442''" "date = ''20190320T000000Z''" "auth = ''AWS4 sig''"
    using sg by (simp_all add: demo_ext_def)
  have lit: "manifest =
           ''<?xml version='' @ DQ @ ''1.0'' @ DQ @ '' encoding='' @ DQ @ ''UTF-8'' @ DQ @
             '' standalone='' @ DQ @ ''yes'' @ DQ @ ''?>'' @
           ''<manifest>'' @
           ''<version>2010-11-15</version>'' @
           ''<file-format>RAW</file-format>'' @
           ''<importer>'' @
           ''<name>bsdec2-image-upload</name>'' @
           ''<version>1.2.2</version>'' @
           ''<release>2019-03-20</release>'' @
           ''</importer>'' @
           ''<self-destruct-url>https://bkt.s3.amazonaws.com'' @
             ''/00112233445566778899aabbccddeeff/manifest.xml?'' @
             ''X-Amz-Expires=604800&amp;X-Amz-Signature=DELETE</self-destruct-url>'' @
           ''<import>'' @
           ''<size>10485761</size>'' @
           ''<volume-size>1</volume-size>'' @
           ''<parts count='' @ DQ @ ''2'' @ DQ @ ''>'' @
           ''<part index='' @ DQ @ ''0'' @ DQ @ ''>'' @
           ''<byte-range start='' @ DQ @ ''0'' @ DQ @ '' end='' @ DQ @ ''10485759'' @ DQ @ ''/>'' @
           ''<key>00112233445566778899aabbccddeeff/part0</key>'' @
           ''<head-url>https://bkt.s3.amazonaws.com/00112233445566778899aabbccddeeff/part0?'' @
             ''X-Amz-Expires=604800&amp;X-Amz-Signature=HEAD</head-url>'' @
           ''<get-url>https://bkt.s3.amazonaws.com/00112233445566778899aabbccddeeff/part0?'' @
             ''X-Amz-Expires=604800&amp;X-Amz-Signature=GET</get-url>'' @
           ''<delete-url>https://bkt.s3.amazonaws.com/00112233445566778899aabbccddeeff/part0?'' @
             ''X-Amz-Expires=604800&amp;X-Amz-Signature=DELETE</delete-url>'' @
           ''</part>'' @
           ''<part index='' @ DQ @ ''1'' @ DQ @ ''>'' @
           ''<byte-range start='' @ DQ @ ''10485760'' @ DQ @ '' end='' @ DQ @ ''10485760'' @ DQ @
             ''/>'' @
           ''<key>00112233445566778899aabbccddeeff/part1</key>'' @
           ''<head-url>https://bkt.s3.amazonaws.com/00112233445566778899aabbccddeeff/part1?'' @
             ''X-Amz-Expires=604800&amp;X-Amz-Signature=HEAD</head-url>'' @
           ''<get-url>https://bkt.s3.amazonaws.com/00112233445566778899aabbccddeeff/part1?'' @
             ''X-Amz-Expires=604800&amp;X-Amz-Signature=GET</get-url>'' @
           ''<delete-url>https://bkt.s3.amazonaws.com/00112233445566778899aabbccddeeff/part1?'' @
             ''X-Amz-Expires=604800&amp;X-Amz-Signature=DELETE</delete-url>'' @
           ''</part>'' @
           ''</parts></import></manifest>''"
    unfolding m ranges vol szs nonce query
    by (simp add: urls show_nat_samples show_int_def)
  have cl: "show_nat (length manifest) = ''1530''"
    unfolding lit by code_simp
  have req: "last (requests w') = Sent ''s3.us-west-2.amazonaws.com''
          (''PUT /00112233445566778899aabbccddeeff/manifest.xml HTTP/1.1'' @ CRLF @
           ''Host: bkt.s3.amazonaws.com'' @ CRLF @
           ''X-Amz-Date: 20190320T000000Z'' @ CRLF @
           ''X-Amz-Content-SHA256: e3b0c442'' @ CRLF @
           ''Authorization: AWS4 sig'' @ CRLF @
           ''Content-Length: 1530'' @ CRLF @
           ''Connection: close'' @ CRLF @
           CRLF @ manifest)"
    unfolding lr cl signed by (simp add: s3_endpoint_def)
  from run have run': "uploadvolume demo_ext ''disk.img'' ''us-west-2'' ''bkt'' ''AKID'' ''secret'' ?w =
            (Some (''/00112233445566778899aabbccddeeff/manifest.xml'', int (PARTSZ + 1)), w')"
    unfolding len .
  show ?thesis
    apply (rule exI [of _ w'])
    apply (intro conjI)
          apply (rule run')
         apply (rule req [unfolded lit])
        apply (rule ranges)
       apply (rule a1)
      apply (rule a2)
     apply (rule a3(1))
    apply (rule a3(2))
    done
qed

lemma manifest_numbers_empty:
  "manifest_size 0 = 0" "manifest_volume_size 0 = 0" "manifest_parts_count 0 = 0"
  by (simp_all add: manifest_size_def manifest_volume_size_def manifest_parts_count_def
      wrap_s64_def wrap_u64_def wrap_s32_def trunc_div_def PARTSZ_def)

lemma uploadvolume_empty_run:
  assumes "noncehex x = Some nonce"
    and "files w fname = Some []"
    and "aws_sign_s3_querystr x key_id key_secret region ''DELETE'' bucket
           (''/'' @ nonce @ ''/manifest.xml'') 604800 = Some query0"
    and "NUL \<notin> set query0"
  shows "\<exists>w3. requests w3 = requests w \<and> replies w3 = replies w \<and>
           (\<exists>evs. trace w3 = trace w @ evs \<and> (\<forall>e \<in> set evs. sent_host e = None)) \<and>
           uploadvolume x fname region bucket key_id key_secret w =
             (case s3_put_loop x key_id key_secret region bucket (''/'' @ nonce @ ''/manifest.xml'')
                     (manifest_start bucket (''/'' @ nonce @ ''/manifest.xml'')
                        (amp_escaped query0) 0 @ ''</parts></import></manifest>'') w3 of
                (r, w4) \<Rightarrow>
                  if r \<noteq> 0 then (None, w4)
                  else (Some (''/'' @ nonce @ ''/manifest.xml'', 0),
                        fprintf_stderr ('' done.'' @ [LF]) w4))"
proof -
  define wA where "wA = fprintf_stderr
                (''Uploading '' @ fname @ '' to'' @ [LF] @
                 ''http://'' @ bucket @ ''.s3.amazonaws.com/'' @ nonce @ ''/'' @ [LF] @
                 ''in '' @ show_int (manifest_parts_count (int (length ([] :: char list)))) @
                 '' part(s)'') w"
  define w3 where "w3 = fprintf_stderr ''Uploading volume manifest...''
                     (fprintf_stderr ('' done.'' @ [LF]) wA)"
  have parts: "uploadvolume_parts x fname region bucket key_id key_secret nonce 0 0 PARTSZ [] m wA =
               (Some m, wA)" for m
    by (subst uploadvolume_parts.simps) simp
  have "uploadvolume x fname region bucket key_id key_secret w =
             (case s3_put_loop x key_id key_secret region bucket (''/'' @ nonce @ ''/manifest.xml'')
                     (manifest_start bucket (''/'' @ nonce @ ''/manifest.xml'')
                        (amp_escaped query0) 0 @ ''</parts></import></manifest>'') w3 of
                (r, w4) \<Rightarrow>
                  if r \<noteq> 0 then (None, w4)
                  else (Some (''/'' @ nonce @ ''/manifest.xml'', 0),
                        fprintf_stderr ('' done.'' @ [LF]) w4))"
    unfolding uploadvolume_run [OF assms] w3_def wA_def [symmetric]
    by (simp add: parts split: prod.splits)
  moreover have "requests w3 = requests w" "replies w3 = replies w"
    by (simp_all add: w3_def wA_def fprintf_stderr_def requests_def)
  moreover have "trace w3 = trace w @ [Stderr
                (''Uploading '' @ fname @ '' to'' @ [LF] @
                 ''http://'' @ bucket @ ''.s3.amazonaws.com/'' @ nonce @ ''/'' @ [LF] @
                 ''in '' @ show_int (manifest_parts_count (int (length ([] :: char list)))) @
                 '' part(s)''), Stderr ('' done.'' @ [LF]), Stderr ''Uploading volume manifest...'']"
    by (simp add: w3_def wA_def fprintf_stderr_def)
  ultimately show ?thesis
    by (intro exI [of _ w3]) auto
qed

lemma manifest_start_empty:
  "manifest_start bucket path query 0 =
     ''<?xml version='' @ DQ @ ''1.0'' @ DQ @ '' encoding='' @ DQ @ ''UTF-8'' @ DQ @
       '' standalone='' @ DQ @ ''yes'' @ DQ @ ''?>'' @
     ''<manifest>'' @
     ''<version>2010-11-15</version>'' @
     ''<file-format>RAW</file-format>'' @
     ''<importer>'' @
     ''<name>bsdec2-image-upload</name>'' @
     ''<version>1.2.2</version>'' @
     ''<release>2019-03-20</release>'' @
     ''</importer>'' @
     ''<self-destruct-url>https://'' @ bucket @ ''.s3.amazonaws.com'' @ path @ ''?'' @ query @
       ''</self-destruct-url>'' @
     ''<import>'' @
     ''<size>0</size>'' @
     ''<volume-size>0</volume-size>'' @
     ''<parts count='' @ DQ @ ''0'' @ DQ @ ''>''"
  by (simp add: manifest_start_def manifest_numbers_empty show_int_def show_nat_samples)

text \<open>
  Claim C10.  For an image of length 0, once the nonce and the signed query of the
  self-destruct URL are available, \<^verbatim>\<open>uploadvolume\<close> makes no request before it
  uploads the manifest.  The text it uploads is the one written out below: the head with
  \<^verbatim>\<open><size>0</size>\<close>, \<^verbatim>\<open><volume-size>0</volume-size>\<close> and
  \<^verbatim>\<open><parts count="0">\<close>, directly followed by the closing tags, with no
  \<^verbatim>\<open><part>\<close> element.  The result of \<^verbatim>\<open>uploadvolume\<close> is decided by the upload
  of this text alone: when it succeeds the function returns the path of the manifest and
  the size 0, and the last request on the wire is the PUT of this text.  Every request of
  the whole call is a PUT of the manifest object, so no part is ever uploaded.
\<close>

theorem uploadvolume_empty_image:
  assumes "noncehex x = Some nonce"
    and "files w fname = Some []"
    and "aws_sign_s3_querystr x key_id key_secret region ''DELETE'' bucket
           (''/'' @ nonce @ ''/manifest.xml'') 604800 = Some query0"
    and "NUL \<notin> set query0"
  shows "\<exists>manifest.
         manifest =
           ''<?xml version='' @ DQ @ ''1.0'' @ DQ @ '' encoding='' @ DQ @ ''UTF-8'' @ DQ @
             '' standalone='' @ DQ @ ''yes'' @ DQ @ ''?>'' @
           ''<manifest>'' @
           ''<version>2010-11-15</version>'' @
           ''<file-format>RAW</file-format>'' @
           ''<importer>'' @
           ''<name>bsdec2-image-upload</name>'' @
           ''<version>1.2.2</version>'' @
           ''<release>2019-03-20</release>'' @
           ''</importer>'' @
           ''<self-destruct-url>https://'' @ bucket @ ''.s3.amazonaws.com'' @
             (''/'' @ nonce @ ''/manifest.xml'') @ ''?'' @ amp_escaped query0 @
             ''</self-destruct-url>'' @
           ''<import>'' @
           ''<size>0</size>'' @
           ''<volume-size>0</volume-size>'' @
           ''<parts count='' @ DQ @ ''0'' @ DQ @ ''>'' @
           ''</parts></import></manifest>'' \<and>
         (\<exists>w3. requests w3 = requests w \<and> replies w3 = replies w \<and>
           uploadvolume x fname region bucket key_id key_secret w =
             (case s3_put_loop x key_id key_secret region bucket (''/'' @ nonce @ ''/manifest.xml'')
                     manifest w3 of
                (r, w4) \<Rightarrow>
                  if r \<noteq> 0 then (None, w4)
                  else (Some (''/'' @ nonce @ ''/manifest.xml'', 0),
                        fprintf_stderr ('' done.'' @ [LF]) w4))) \<and>
         (\<forall>path sz w'.
            uploadvolume x fname region bucket key_id key_secret w = (Some (path, sz), w') \<longrightarrow>
            path = ''/'' @ nonce @ ''/manifest.xml'' \<and> sz = 0 \<and>
            (\<exists>sha date auth.
               aws_sign_s3_headers x key_id key_secret region ''PUT'' bucket path manifest =
                 Some (sha, date, auth) \<and>
               requests w' \<noteq> [] \<and>
               last (requests w') = Sent (s3_endpoint region)
                 (''PUT '' @ path @ '' HTTP/1.1'' @ CRLF @
                  ''Host: '' @ bucket @ ''.s3.amazonaws.com'' @ CRLF @
                  ''X-Amz-Date: '' @ date @ CRLF @
                  ''X-Amz-Content-SHA256: '' @ sha @ CRLF @
                  ''Authorization: '' @ auth @ CRLF @
                  ''Content-Length: '' @ show_nat (length manifest) @ CRLF @
                  ''Connection: close'' @ CRLF @
                  CRLF @ manifest))) \<and>
         (\<forall>host req.
            Sent host req \<in> set (events_since w
              (snd (uploadvolume x fname region bucket key_id key_secret w))) \<longrightarrow>
            prefix (''PUT '' @ (''/'' @ nonce @ ''/manifest.xml'') @ '' HTTP/1.1'') req)"
proof -
  let ?path = "''/'' @ nonce @ ''/manifest.xml''"
  define manifest where
    "manifest = manifest_start bucket ?path (amp_escaped query0) 0 @ ''</parts></import></manifest>''"
  have lit: "manifest =
           ''<?xml version='' @ DQ @ ''1.0'' @ DQ @ '' encoding='' @ DQ @ ''UTF-8'' @ DQ @
             '' standalone='' @ DQ @ ''yes'' @ DQ @ ''?>'' @
           ''<manifest>'' @
           ''<version>2010-11-15</version>'' @
           ''<file-format>RAW</file-format>'' @
           ''<importer>'' @
           ''<name>bsdec2-image-upload</name>'' @
           ''<version>1.2.2</version>'' @
           ''<release>2019-03-20</release>'' @
           ''</importer>'' @
           ''<self-destruct-url>https://'' @ bucket @ ''.s3.amazonaws.com'' @
             (''/'' @ nonce @ ''/manifest.xml'') @ ''?'' @ amp_escaped query0 @
             ''</self-destruct-url>'' @
           ''<import>'' @
           ''<size>0</size>'' @
           ''<volume-size>0</volume-size>'' @
           ''<parts count='' @ DQ @ ''0'' @ DQ @ ''>'' @
           ''</parts></import></manifest>''"
    unfolding manifest_def manifest_start_empty by simp
  from uploadvolume_empty_run [OF assms, folded manifest_def] obtain w3 evs where
    w3: "requests w3 = requests w" "trace w3 = trace w @ evs" "\<forall>e \<in> set evs. sent_host e = None"
      "replies w3 = replies w"
    and run: "uploadvolume x fname region bucket key_id key_secret w =
             (case s3_put_loop x key_id key_secret region bucket ?path manifest w3 of
                (r, w4) \<Rightarrow>
                  if r \<noteq> 0 then (None, w4)
                  else (Some (?path, 0), fprintf_stderr ('' done.'' @ [LF]) w4))"
    by blast
  obtain r w4 where put: "s3_put_loop x key_id key_secret region bucket ?path manifest w3 = (r, w4)"
    by (cases "s3_put_loop x key_id key_secret region bucket ?path manifest w3")
  from s3_put_loop_events_path [OF put] obtain evs' where
    e: "trace w4 = trace w3 @ evs'"
      "\<forall>e \<in> set evs'. \<forall>host req. e = Sent host req \<longrightarrow>
         host = s3_endpoint region \<and> prefix (''PUT '' @ ?path @ '' HTTP/1.1'') req"
    by blast
  have tr: "\<exists>tl. trace (snd (uploadvolume x fname region bucket key_id key_secret w)) =
              trace w @ evs @ evs' @ tl \<and> (\<forall>e \<in> set tl. sent_host e = None)"
    unfolding run put using e(1) w3(2)
    by (cases "r = 0") (simp_all add: fprintf_stderr_def)
  then obtain tl where tl:
    "trace (snd (uploadvolume x fname region bucket key_id key_secret w)) =
       trace w @ evs @ evs' @ tl" "\<forall>e \<in> set tl. sent_host e = None"
    by blast
  have since: "events_since w (snd (uploadvolume x fname region bucket key_id key_secret w)) =
               evs @ evs' @ tl"
    using tl(1) by (simp add: events_since_def)
  have sent: "\<forall>host req.
            Sent host req \<in> set (events_since w
              (snd (uploadvolume x fname region bucket key_id key_secret w))) \<longrightarrow>
            prefix (''PUT '' @ ?path @ '' HTTP/1.1'') req"
  proof (intro allI impI)
    fix host req
    assume "Sent host req \<in> set (events_since w
              (snd (uploadvolume x fname region bucket key_id key_secret w)))"
    then have "Sent host req \<in> set evs \<or> Sent host req \<in> set evs' \<or> Sent host req \<in> set tl"
      unfolding since by auto
    moreover have "Sent host req \<notin> set evs" using w3(3) by force
    moreover have "Sent host req \<notin> set tl" using tl(2) by force
    ultimately have "Sent host req \<in> set evs'" by blast
    with e(2) show "prefix (''PUT '' @ ?path @ '' HTTP/1.1'') req" by blast
  qed
  have first: "\<exists>w3. requests w3 = requests w \<and> replies w3 = replies w \<and>
           uploadvolume x fname region bucket key_id key_secret w =
             (case s3_put_loop x key_id key_secret region bucket ?path manifest w3 of
                (r, w4) \<Rightarrow>
                  if r \<noteq> 0 then (None, w4)
                  else (Some (?path, 0), fprintf_stderr ('' done.'' @ [LF]) w4))"
    using w3(1,4) run by blast
  have success: "\<forall>path sz w'.
            uploadvolume x fname region bucket key_id key_secret w = (Some (path, sz), w') \<longrightarrow>
            path = ?path \<and> sz = 0 \<and>
            (\<exists>sha date auth.
               aws_sign_s3_headers x key_id key_secret region ''PUT'' bucket path manifest =
                 Some (sha, date, auth) \<and>
               requests w' \<noteq> [] \<and>
               last (requests w') = Sent (s3_endpoint region)
                 (''PUT '' @ path @ '' HTTP/1.1'' @ CRLF @
                  ''Host: '' @ bucket @ ''.s3.amazonaws.com'' @ CRLF @
                  ''X-Amz-Date: '' @ date @ CRLF @
                  ''X-Amz-Content-SHA256: '' @ sha @ CRLF @
                  ''Authorization: '' @ auth @ CRLF @
                  ''Content-Length: '' @ show_nat (length manifest) @ CRLF @
                  ''Connection: close'' @ CRLF @
                  CRLF @ manifest))"
  proof (intro allI impI)
    fix path sz w'
    assume ok: "uploadvolume x fname region bucket key_id key_secret w = (Some (path, sz), w')"
    from ok [unfolded run put] have r0: "r = 0" and p: "path = ?path" and s: "sz = 0"
      and w': "w' = fprintf_stderr ('' done.'' @ [LF]) w4"
      by (auto split: if_splits)
    from s3_put_loop_sent [OF put [unfolded r0]] obtain sha date auth where
      sg: "aws_sign_s3_headers x key_id key_secret region ''PUT'' bucket ?path manifest =
             Some (sha, date, auth)"
      and ne: "requests w4 \<noteq> []"
      and lr: "last (requests w4) = Sent (s3_endpoint region)
                 (''PUT '' @ ?path @ '' HTTP/1.1'' @ CRLF @
                  ''Host: '' @ bucket @ ''.s3.amazonaws.com'' @ CRLF @
                  ''X-Amz-Date: '' @ date @ CRLF @
                  ''X-Amz-Content-SHA256: '' @ sha @ CRLF @
                  ''Authorization: '' @ auth @ CRLF @
                  ''Content-Length: '' @ show_nat (length manifest) @ CRLF @
                  ''Connection: close'' @ CRLF @
                  CRLF @ manifest)"
      by blast
    have rw: "requests w' = requests w4"
      unfolding w' by (simp add: fprintf_stderr_def requests_def)
    show "path = ?path \<and> sz = 0 \<and>
            (\<exists>sha date auth.
               aws_sign_s3_headers x key_id key_secret region ''PUT'' bucket path manifest =
                 Some (sha, date, auth) \<and>
               requests w' \<noteq> [] \<and>
               last (requests w') = Sent (s3_endpoint region)
                 (''PUT '' @ path @ '' HTTP/1.1'' @ CRLF @
                  ''Host: '' @ bucket @ ''.s3.amazonaws.com'' @ CRLF @
                  ''X-Amz-Date: '' @ date @ CRLF @
                  ''X-Amz-Content-SHA256: '' @ sha @ CRLF @
                  ''Authorization: '' @ auth @ CRLF @
                  ''Content-Length: '' @ show_nat (length manifest) @ CRLF @
                  ''Connection: close'' @ CRLF @
                  CRLF @ manifest))"
      unfolding p rw using s sg ne lr by blast
  qed
  show ?thesis
    by (rule exI [of _ manifest], intro conjI) (fact lit first success sent)+
qed

theorem uploadvolume_empty_image_witness:
  "\<exists>w'. uploadvolume demo_ext ''disk.img'' ''us-west-2'' ''bkt'' ''AKID'' ''secret''
          (image_world ''disk.img'' [] [ok_reply []]) =
        (Some (''/00112233445566778899aabbccddeeff/manifest.xml'', 0), w') \<and>
        requests w' = [Sent ''s3.us-west-2.amazonaws.com''
          (''PUT /00112233445566778899aabbccddeeff/manifest.xml HTTP/1.1'' @ CRLF @
           ''Host: bkt.s3.amazonaws.com'' @ CRLF @
           ''X-Amz-Date: 20190320T000000Z'' @ CRLF @
           ''X-Amz-Content-SHA256: e3b0c442'' @ CRLF @
           ''Authorization: AWS4 sig'' @ CRLF @
           ''Content-Length: 486'' @ CRLF @
           ''Connection: close'' @ CRLF @
           CRLF @
           ''<?xml version='' @ DQ @ ''1.0'' @ DQ @ '' encoding='' @ DQ @ ''UTF-8'' @ DQ @
             '' standalone='' @ DQ @ ''yes'' @ DQ @ ''?>'' @
           ''<manifest>'' @
           ''<version>2010-11-15</version>'' @
           ''<file-format>RAW</file-format>'' @
           ''<importer>'' @
           ''<name>bsdec2-image-upload</name>'' @
           ''<version>1.2.2</version>'' @
           ''<release>2019-03-20</release>'' @
           ''</importer>'' @
           ''<self-destruct-url>https://bkt.s3.amazonaws.com'' @
             ''/00112233445566778899aabbccddeeff/manifest.xml?'' @
             ''X-Amz-Expires=604800&amp;X-Amz-Signature=DELETE</self-destruct-url>'' @
           ''<import>'' @
           ''<size>0</size>'' @
           ''<volume-size>0</volume-size>'' @
           ''<parts count='' @ DQ @ ''0'' @ DQ @ ''>'' @
           ''</parts></import></manifest>'')]"
proof -
  let ?w = "image_world ''disk.img'' [] [ok_reply []]"
  let ?path = "''/'' @ ''00112233445566778899aabbccddeeff'' @ ''/manifest.xml''"
  let ?q = "''X-Amz-Expires=604800&X-Amz-Signature='' @ ''DELETE''"
  have a: "noncehex demo_ext = Some ''00112233445566778899aabbccddeeff''"
    "files ?w ''disk.img'' = Some []"
    "aws_sign_s3_querystr demo_ext ''AKID'' ''secret'' ''us-west-2'' ''DELETE'' ''bkt'' ?path 604800
       = Some ?q"
    "NUL \<notin> set ?q"
    by (simp_all add: demo_ext_def image_world_def)
  from uploadvolume_empty_image [OF a] obtain manifest w3 where
    lit: "manifest =
           ''<?xml version='' @ DQ @ ''1.0'' @ DQ @ '' encoding='' @ DQ @ ''UTF-8'' @ DQ @
             '' standalone='' @ DQ @ ''yes'' @ DQ @ ''?>'' @
           ''<manifest>'' @
           ''<version>2010-11-15</version>'' @
           ''<file-format>RAW</file-format>'' @
           ''<importer>'' @
           ''<name>bsdec2-image-upload</name>'' @
           ''<version>1.2.2</version>'' @
           ''<release>2019-03-20</release>'' @
           ''</importer>'' @
           ''<self-destruct-url>https://'' @ ''bkt'' @ ''.s3.amazonaws.com'' @
             ?path @ ''?'' @ amp_escaped ?q @
             ''</self-destruct-url>'' @
           ''<import>'' @
           ''<size>0</size>'' @
           ''<volume-size>0</volume-size>'' @
           ''<parts count='' @ DQ @ ''0'' @ DQ @ ''>'' @
           ''</parts></import></manifest>''"
    and w3: "requests w3 = requests ?w" "replies w3 = replies ?w"
    and run: "uploadvolume demo_ext ''disk.img'' ''us-west-2'' ''bkt'' ''AKID'' ''secret'' ?w =
             (case s3_put_loop demo_ext ''AKID'' ''secret'' ''us-west-2'' ''bkt'' ?path manifest w3 of
                (r, w4) \<Rightarrow>
                  if r \<noteq> 0 then (None, w4)
                  else (Some (?path, 0), fprintf_stderr ('' done.'' @ [LF]) w4))"
    and success: "\<forall>path sz w'.
            uploadvolume demo_ext ''disk.img'' ''us-west-2'' ''bkt'' ''AKID'' ''secret'' ?w =
              (Some (path, sz), w') \<longrightarrow>
            path = ?path \<and> sz = 0 \<and>
            (\<exists>sha date auth.
               aws_sign_s3_headers demo_ext ''AKID'' ''secret'' ''us-west-2'' ''PUT'' ''bkt'' path
                 manifest = Some (sha, date, auth) \<and>
               requests w' \<noteq> [] \<and>
               last (requests w') = Sent (s3_endpoint ''us-west-2'')
                 (''PUT '' @ path @ '' HTTP/1.1'' @ CRLF @
                  ''Host: '' @ ''bkt'' @ ''.s3.amazonaws.com'' @ CRLF @
                  ''X-Amz-Date: '' @ date @ CRLF @
                  ''X-Amz-Content-SHA256: '' @ sha @ CRLF @
                  ''Authorization: '' @ auth @ CRLF @
                  ''Content-Length: '' @ show_nat (length manifest) @ CRLF @
                  ''Connection: close'' @ CRLF @
                  CRLF @ manifest))"
    by (elim exE conjE) (rule that; assumption)
  have sign: "aws_sign_s3_headers demo_ext ''AKID'' ''secret'' ''us-west-2'' ''PUT'' ''bkt'' ?path
                manifest \<noteq> None"
    by (simp add: demo_ext_def)
  have script: "replies w3 = ok_reply [] # []"
    using w3(2) by (simp add: image_world_def)
  have e: "NUL \<notin> set []" "length ([] :: char list) \<le> 16365" by simp_all
  from s3_put_loop_ok_reply [OF sign script e] obtain req where
    put: "s3_put_loop demo_ext ''AKID'' ''secret'' ''us-west-2'' ''bkt'' ?path manifest w3 =
          (0, emit (Sent (s3_endpoint ''us-west-2'') req) (w3\<lparr>replies := []\<rparr>))"
    by blast
  define w' where "w' = fprintf_stderr ('' done.'' @ [LF])
                          (emit (Sent (s3_endpoint ''us-west-2'') req) (w3\<lparr>replies := []\<rparr>))"
  have ok: "uploadvolume demo_ext ''disk.img'' ''us-west-2'' ''bkt'' ''AKID'' ''secret'' ?w =
              (Some (?path, 0), w')"
    unfolding run put w'_def by simp
  have "requests (w3\<lparr>replies := []\<rparr>) = []"
    using w3(1) by (simp add: requests_def image_world_def)
  then have one: "requests w' = [Sent (s3_endpoint ''us-west-2'') req]"
    by (simp add: w'_def fprintf_stderr_def requests_emit)
  from success [rule_format, OF ok] obtain sha date auth where
    sg: "aws_sign_s3_headers demo_ext ''AKID'' ''secret'' ''us-west-2'' ''PUT'' ''bkt'' ?path
           manifest = Some (sha, date, auth)"
    and lr: "last (requests w') = Sent (s3_endpoint ''us-west-2'')
                 (''PUT '' @ ?path @ '' HTTP/1.1'' @ CRLF @
                  ''Host: '' @ ''bkt'' @ ''.s3.amazonaws.com'' @ CRLF @
                  ''X-Amz-Date: '' @ date @ CRLF @
                  ''X-Amz-Content-SHA256: '' @ sha @ CRLF @
                  ''Authorization: '' @ auth @ CRLF @
                  ''Content-Length: '' @ show_nat (length manifest) @ CRLF @
                  ''Connection: close'' @ CRLF @
                  CRLF @ manifest)"
    by (elim exE conjE)
  have signed: "sha = ''e3b0c442''" "date = ''20190320T000000Z''" "auth = ''AWS4 sig''"
    using sg by (simp_all add: demo_ext_def)
  have lit': "manifest =
           ''<?xml version='' @ DQ @ ''1.0'' @ DQ @ '' encoding='' @ DQ @ ''UTF-8'' @ DQ @
             '' standalone='' @ DQ @ ''yes'' @ DQ @ ''?>'' @
           ''<manifest>'' @
           ''<version>2010-11-15</version>'' @
           ''<file-format>RAW</file-format>'' @
           ''<importer>'' @
           ''<name>bsdec2-image-upload</name>'' @
           ''<version>1.2.2</version>'' @
           ''<release>2019-03-20</release>'' @
           ''</importer>'' @
           ''<self-destruct-url>https://bkt.s3.amazonaws.com'' @
             ''/00112233445566778899aabbccddeeff/manifest.xml?'' @
             ''X-Amz-Expires=604800&amp;X-Amz-Signature=DELETE</self-destruct-url>'' @
           ''<import>'' @
           ''<size>0</size>'' @
           ''<volume-size>0</volume-size>'' @
           ''<parts count='' @ DQ @ ''0'' @ DQ @ ''>'' @
           ''</parts></import></manifest>''"
    unfolding lit by (simp add: amp_escaped_def)
  have cl: "show_nat (length manifest) = ''486''"
    unfolding lit' by code_simp
  have "last (requests w') = Sent (s3_endpoint ''us-west-2'') req"
    unfolding one by simp
  with lr have "req =
                 ''PUT '' @ ?path @ '' HTTP/1.1'' @ CRLF @
                  ''Host: '' @ ''bkt'' @ ''.s3.amazonaws.com'' @ CRLF @
                  ''X-Amz-Date: '' @ date @ CRLF @
                  ''X-Amz-Content-SHA256: '' @ sha @ CRLF @
                  ''Authorization: '' @ auth @ CRLF @
                  ''Content-Length: '' @ show_nat (length manifest) @ CRLF @
                  ''Connection: close'' @ CRLF @
                  CRLF @ manifest"
    by simp
  then have req: "req =
           ''PUT /00112233445566778899aabbccddeeff/manifest.xml HTTP/1.1'' @ CRLF @
           ''Host: bkt.s3.amazonaws.com'' @ CRLF @
           ''X-Amz-Date: 20190320T000000Z'' @ CRLF @
           ''X-Amz-Content-SHA256: e3b0c442'' @ CRLF @
           ''Authorization: AWS4 sig'' @ CRLF @
           ''Content-Length: 486'' @ CRLF @
           ''Connection: close'' @ CRLF @
           CRLF @ manifest"
    unfolding cl signed by simp
  have host: "s3_endpoint ''us-west-2'' = ''s3.us-west-2.amazonaws.com''"
    by (simp add: s3_endpoint_def)
  from ok have ok': "uploadvolume demo_ext ''disk.img'' ''us-west-2'' ''bkt'' ''AKID'' ''secret'' ?w =
              (Some (''/00112233445566778899aabbccddeeff/manifest.xml'', 0), w')"
    by simp
  show ?thesis
    apply (rule exI [of _ w'])
    apply (rule conjI)
     apply (rule ok')
    apply (rule one [unfolded host req lit'])
    done
qed

section \<open>Properties of the notification\<close>








section \<open>Properties of the program\<close>

lemma sns_publish_status:
  "fst (sns_publish x key_id key_secret topicarn releaseversion imageversion name nregions regions
          amis w) \<in> {0, - 1}"
  by (auto simp: sns_publish_def Let_def split: option.splits prod.splits sum.splits)

lemma sns_publish_no_MessageId:
  assumes "replies w = Inr bytes # rest"
    and "strstr (cstr (take 16384 bytes)) (CRLF @ CRLF) = Some k"
    and "strstr (drop (k + 4) (cstr (take 16384 bytes))) ''<MessageId>'' = None"
  shows "fst (sns_publish x key_id key_secret topicarn releaseversion imageversion name nregions
                regions amis w) = - 1"
proof -
  have call: "sslreq host req 16384 w =
                (Inr (take 16384 bytes), emit (Sent host req) (w\<lparr>replies := rest\<rparr>))" for host req
    using assms(1) by (simp add: sslreq_def)
  show ?thesis
    using assms(2,3)
    by (auto simp: sns_publish_def Let_def call split: option.splits prod.splits)
qed

text \<open>
  Claim C8.  Let \<^verbatim>\<open>main\<close> be run with a topic (ten arguments after the flags), and
  let every stage before the notification succeed, so that the program reaches the call of
  \<^verbatim>\<open>sns_publish\<close>.  Then the exit status is 0 whatever \<^verbatim>\<open>sns_publish\<close> returns;
  when it returns a failure, the program ends by the diagnostic \<^verbatim>\<open>Failed to send SNS
  notification\<close>, and otherwise it adds nothing.  The call returns 0 or -1, and it does
  return a failure when the response offered to its request has a body without
  \<^verbatim>\<open><MessageId>\<close>.
\<close>

theorem main_notification_best_effort:
  assumes "main_flags argv0 False False False False ''x86_64'' =
             (argv, public, publicsnap, sriov, ena, arch)"
    and "length argv = 10"
    and "main_stages x public publicsnap sriov ena arch (argv ! 1) (argv ! 2) (argv ! 3)
           (argv ! 4) (argv ! 5) (argv ! 6) w = (Inr (key_id, key_secret, regions, amis), w1)"
    and "sns_publish x key_id key_secret (argv ! 7) (argv ! 8) (argv ! 9) (argv ! 2)
           (length regions) regions amis w1 = (rc, w2)"
  shows "main x argv0 w =
           (0, if rc = 0 then w2 else warnp ''Failed to send SNS notification'' w2) \<and>
         rc \<in> {0, - 1} \<and>
         (\<forall>bytes rest k.
            replies w1 = Inr bytes # rest \<and>
            strstr (cstr (take 16384 bytes)) (CRLF @ CRLF) = Some k \<and>
            strstr (drop (k + 4) (cstr (take 16384 bytes))) ''<MessageId>'' = None \<longrightarrow>
            rc = - 1)"
proof -
  have c1: "main x argv0 w =
              (0, if rc = 0 then w2 else warnp ''Failed to send SNS notification'' w2)"
    using assms by (simp add: main_def Let_def)
  have c2: "rc \<in> {0, - 1}"
    using sns_publish_status [of x key_id key_secret "argv ! 7" "argv ! 8" "argv ! 9" "argv ! 2"
        "length regions" regions amis w1] assms(4) by simp
  have c3: "rc = - 1"
    if "replies w1 = Inr bytes # rest"
      and "strstr (cstr (take 16384 bytes)) (CRLF @ CRLF) = Some k"
      and "strstr (drop (k + 4) (cstr (take 16384 bytes))) ''<MessageId>'' = None"
    for bytes rest k
    using sns_publish_no_MessageId [OF that, of x key_id key_secret "argv ! 7" "argv ! 8"
        "argv ! 9" "argv ! 2" "length regions" regions amis] assms(4) by simp
  from c1 c2 c3 show ?thesis by blast
qed
text \<open>A run of the whole program, stage by stage, against a service that answers every
  request at once.\<close>

lemma quiet_output [simp]:
  "replies (fprintf_stderr m w) = replies w" "files (fprintf_stderr m w) = files w"
  "replies (printf m w) = replies w" "files (printf m w) = files w"
  by (simp_all add: fprintf_stderr_def printf_def)

lemma ec2_apicall_demo:
  assumes "replies w = ok_reply body # rest" "NUL \<notin> set body" "length body \<le> 16365"
  shows "\<exists>w'. ec2_apicall demo_ext key_id key_secret region s w = (Some body, w') \<and>
              replies w' = rest \<and> files w' = files w"
proof -
  have "aws_sign_ec2_headers demo_ext key_id key_secret region s \<noteq> None"
    by (simp add: demo_ext_def)
  from ec2_apicall_ok_reply [OF this assms] show ?thesis by auto
qed

lemma ec2_apicall_loop_demo:
  assumes "replies w = ok_reply body # rest" "NUL \<notin> set body" "length body \<le> 16365"
  shows "\<exists>w'. ec2_apicall_loop demo_ext key_id key_secret region s w = (Some body, w') \<and>
              replies w' = rest \<and> files w' = files w"
proof -
  have "aws_sign_ec2_headers demo_ext key_id key_secret region s \<noteq> None"
    by (simp add: demo_ext_def)
  from ec2_apicall_loop_ok_reply [OF this assms] show ?thesis by auto
qed

lemma readkeys_demo:
  assumes "files w fname = Some demo_keyfile"
  shows "readkeys fname w = (Some (''AKID'', ''secret''), w)"
proof -
  let ?ls = "[''ACCESS_KEY_ID=AKID'', ''ACCESS_KEY_SECRET=secret'']"
  have f: "demo_keyfile = terminated_lines ?ls @ []"
    by (simp add: demo_keyfile_def terminated_lines_def)
  have ok: "\<forall>l \<in> set ?ls. LF \<notin> set l \<and> NUL \<notin> set l \<and> length l \<le> 1022"
    by simp
  have sc: "scan_lines ?ls None None = (Finished, Some ''AKID'', Some ''secret'')"
    by (simp add: key_id_line_def key_secret_line_def line_text_def)
  from readkeys_loop_lines [OF ok, where key_id = None and key_secret = None and fname = fname
      and tail = "[]" and w = w]
  have "readkeys_loop fname demo_keyfile None None w = (Finished, Some ''AKID'', Some ''secret'', w)"
    unfolding sc f by (simp add: readkeys_loop_eof)
  then show ?thesis
    using assms by (simp add: readkeys_def)
qed

lemma getregionlist_demo:
  assumes "replies w = ok_reply body # rest" "NUL \<notin> set body" "length body \<le> 16365"
    and "xmlextract body ''regionInfo'' = Some info"
    and "xmlextracts info ''regionName'' = Some (r # rs)"
  shows "\<exists>w'. getregionlist demo_ext key_id key_secret region w = (Some (r # rs), w') \<and>
              replies w' = rest \<and> files w' = files w"
proof -
  from ec2_apicall_loop_demo [OF assms(1-3)] obtain w' where
    "ec2_apicall_loop demo_ext key_id key_secret region
       (''Action=DescribeRegions&'' @ ''Version=2014-09-01'') w = (Some body, w')"
    "replies w' = rest" "files w' = files w"
    by blast
  then show ?thesis
    using assms(4,5) by (simp add: getregionlist_def)
qed

lemma importvolume_demo:
  assumes "replies w = ok_reply body # rest" "NUL \<notin> set body" "length body \<le> 16365"
    and "xmlextract body ''conversionTaskId'' = Some taskid"
  shows "\<exists>w'. importvolume demo_ext region bucket manifest sz key_id key_secret w =
                (Some taskid, w') \<and> replies w' = rest"
proof -
  define query where "query = ''X-Amz-Expires=604800&X-Amz-Signature='' @ ''GET''"
  define s where "s =
      ''Action=ImportVolume&'' @
      ''AvailabilityZone='' @ region @ ''a&'' @
      ''Image.Format=RAW&'' @
      ''Image.Bytes='' @ show_int (wrap_s64 sz) @ ''&'' @
      ''Image.ImportManifestUrl='' @
        (''https://'' @ bucket @ ''.s3.amazonaws.com'' @ manifest @ ''?'' @ query) @ ''&'' @
      ''Volume.Size='' @ show_int (wrap_s64 (wrap_u64 (sz + 2 ^ 30 - 1) div 2 ^ 30)) @ ''&'' @
      ''Version=2014-09-01''"
  have q: "aws_sign_s3_querystr demo_ext key_id key_secret region ''GET'' bucket manifest 604800 =
           Some query"
    by (simp add: demo_ext_def query_def)
  have enc: "rfc3986_encode demo_ext u = Some u" for u
    by (simp add: demo_ext_def)
  from ec2_apicall_demo [OF assms(1-3)] obtain w' where
    "ec2_apicall demo_ext key_id key_secret region s w = (Some body, w')" "replies w' = rest"
    by blast
  then show ?thesis
    using assms(4) by (simp add: importvolume_def q enc Let_def s_def)
qed

lemma waitforimport_demo:
  assumes "replies w = ok_reply completed_task # rest"
  shows "\<exists>w'. waitforimport demo_ext region taskid key_id key_secret w = (Some ''vol-456'', w') \<and>
              replies w' = rest"
proof -
  have b: "NUL \<notin> set completed_task" "length completed_task \<le> 16365"
    by (simp_all add: completed_task_def)
  from ec2_apicall_loop_demo [OF assms b] obtain w1 where
    call: "ec2_apicall_loop demo_ext key_id key_secret region
             (''Action=DescribeConversionTasks&'' @ ''ConversionTaskId.1='' @ taskid @ ''&'' @
              ''Version=2014-09-01'') w = (Some completed_task, w1)"
    and r: "replies w1 = rest"
    by blast
  show ?thesis
    unfolding waitforimport_def waitforimport_loop_step [OF call]
    using r by (simp add: failed_task_extracts)
qed

lemma createsnapshot_demo:
  assumes "replies w = ok_reply body # rest" "NUL \<notin> set body" "length body \<le> 16365"
    and "xmlextract body ''snapshotId'' = Some snapshot"
  shows "\<exists>w'. createsnapshot demo_ext region volume key_id key_secret w = (Some snapshot, w') \<and>
              replies w' = rest"
proof -
  have "replies (fprintf_stderr ''Creating snapshot'' w) = ok_reply body # rest"
    using assms(1) by simp
  from ec2_apicall_demo [OF this assms(2,3)] obtain w' where
    "ec2_apicall demo_ext key_id key_secret region
       (''Action=CreateSnapshot&'' @ ''VolumeId='' @ volume @ ''&'' @ ''Version=2014-09-01'')
       (fprintf_stderr ''Creating snapshot'' w) = (Some body, w')"
    "replies w' = rest"
    by blast
  then show ?thesis
    using assms(4) by (simp add: createsnapshot_def Let_def)
qed

lemma waitforsnapshot_demo:
  assumes "replies w = ok_reply ''<status>completed</status>'' # rest"
  shows "\<exists>w'. waitforsnapshot demo_ext region snapshot key_id key_secret w = (0, w') \<and>
              replies w' = rest"
proof -
  have b: "NUL \<notin> set ''<status>completed</status>''"
    "length ''<status>completed</status>'' \<le> 16365"
    by simp_all
  from ec2_apicall_loop_demo [OF assms b] obtain w1 where
    call: "ec2_apicall_loop demo_ext key_id key_secret region
             (''Action=DescribeSnapshots&'' @ ''SnapshotId.1='' @ snapshot @ ''&'' @
              ''Version=2014-09-01'') w = (Some ''<status>completed</status>'', w1)"
    and r: "replies w1 = rest"
    by blast
  show ?thesis
    unfolding waitforsnapshot_step [OF call xmlextract_status_samples(2)]
    using r by simp
qed

lemma deletevolume_demo:
  assumes "replies w = ok_reply ''<return>true</return>'' # rest"
  shows "\<exists>w'. deletevolume demo_ext region volume key_id key_secret w = (0, w') \<and>
              replies w' = rest"
proof -
  have b: "NUL \<notin> set ''<return>true</return>''" "length ''<return>true</return>'' \<le> 16365"
    by simp_all
  from ec2_apicall_demo [OF assms b] obtain w' where
    "ec2_apicall demo_ext key_id key_secret region
       (''Action=DeleteVolume&'' @ ''VolumeId='' @ volume @ ''&'' @ ''Version=2014-09-01'') w =
     (Some ''<return>true</return>'', w')"
    "replies w' = rest"
    by blast
  then show ?thesis
    by (simp add: deletevolume_def Let_def)
qed

lemma makepublic_demo:
  assumes "replies w = ok_reply ''<return>true</return>'' # rest"
  shows "\<exists>w'. makepublic demo_ext region ami key_id key_secret w = (0, w') \<and>
              replies w' = rest"
proof -
  have b: "NUL \<notin> set ''<return>true</return>''" "length ''<return>true</return>'' \<le> 16365"
    by simp_all
  from ec2_apicall_loop_demo [OF assms b] obtain w' where
    "ec2_apicall_loop demo_ext key_id key_secret region
       (''Action=ModifyImageAttribute&'' @ ''ImageId='' @ ami @ ''&'' @
        ''LaunchPermission.Add.1.Group=all&'' @ ''Version=2014-09-01'') w =
     (Some ''<return>true</return>'', w')"
    "replies w' = rest"
    by blast
  then show ?thesis
    by (simp add: makepublic_def Let_def)
qed

lemma waitforami_demo:
  assumes "replies w = ok_reply ''<imageState>available</imageState>'' # rest"
  shows "\<exists>w'. waitforami demo_ext region ami key_id key_secret w = (0, w') \<and>
              replies w' = rest"
proof -
  have b: "NUL \<notin> set ''<imageState>available</imageState>''"
    "length ''<imageState>available</imageState>'' \<le> 16365"
    by simp_all
  have st: "xmlextract ''<imageState>available</imageState>'' ''imageState'' = Some ''available''"
    by (simp add: xmlextract_def xmlextracts_def xmlextracts_loop.simps Let_def)
  from ec2_apicall_loop_demo [OF assms b] obtain w1 where
    "ec2_apicall_loop demo_ext key_id key_secret region
       (''Action=DescribeImages&'' @ ''ImageId.1='' @ ami @ ''&'' @ ''Version=2014-09-01'') w =
     (Some ''<imageState>available</imageState>'', w1)"
    "replies w1 = rest"
    by blast
  then show ?thesis
    by (subst waitforami.simps) (simp add: Let_def st)
qed

lemma registerimage_demo:
  assumes "replies w = ok_reply body # rest" "NUL \<notin> set body" "length body \<le> 16365"
    and "xmlextract body ''imageId'' = Some ami"
  shows "\<exists>w'. registerimage demo_ext region snapshot name desc arch sriov ena key_id key_secret w =
                (Some ami, w') \<and> replies w' = rest"
proof -
  have enc: "rfc3986_encode demo_ext u = Some u" for u
    by (simp add: demo_ext_def)
  have "replies (fprintf_stderr ''Registering AMI...'' w) = ok_reply body # rest"
    using assms(1) by simp
  from ec2_apicall_demo [OF this assms(2,3)] obtain w' where
    "ec2_apicall demo_ext key_id key_secret region
       (''Action=RegisterImage&'' @
        ''Name='' @ name @ ''&'' @
        ''Description='' @ desc @ ''&'' @
        ''Architecture='' @ arch @ ''&'' @
        ''RootDeviceName=%2Fdev%2Fsda1&'' @
        ''VirtualizationType=hvm&'' @
        (if sriov then ''SriovNetSupport=simple&'' else '''') @
        (if ena then ''EnaSupport=true&'' else '''') @
        ''BlockDeviceMapping.1.DeviceName=%2Fdev%2Fsda1&'' @
        ''BlockDeviceMapping.1.Ebs.SnapshotId='' @ snapshot @ ''&'' @
        ''BlockDeviceMapping.1.Ebs.VolumeType=gp2&'' @
        ''BlockDeviceMapping.1.Ebs.VolumeSize=10&'' @
        ''BlockDeviceMapping.2.DeviceName=%2Fdev%2Fsdb&'' @
        ''BlockDeviceMapping.2.VirtualName=ephemeral0&'' @
        ''BlockDeviceMapping.3.DeviceName=%2Fdev%2Fsdc&'' @
        ''BlockDeviceMapping.3.VirtualName=ephemeral1&'' @
        ''BlockDeviceMapping.4.DeviceName=%2Fdev%2Fsdd&'' @
        ''BlockDeviceMapping.4.VirtualName=ephemeral2&'' @
        ''BlockDeviceMapping.5.DeviceName=%2Fdev%2Fsde&'' @
        ''BlockDeviceMapping.5.VirtualName=ephemeral3&'' @
        ''Version=2016-11-15'')
       (fprintf_stderr ''Registering AMI...'' w) = (Some body, w')"
    "replies w' = rest"
    by blast
  then show ?thesis
    unfolding registerimage_def enc Let_def option.case
    using assms(4) by simp
qed

lemma main_images_demo:
  assumes "replies w = ok_reply ''<imageId>ami-1</imageId>'' #
             ok_reply ''<imageState>available</imageState>'' #
             ok_reply ''<return>true</return>'' # rest"
  shows "\<exists>w'. main_images demo_ext True sriov ena arch name desc region key_id key_secret [region]
                snapshot w = (Inr [''ami-1''], w') \<and> replies w' = rest"
proof -
  have b: "NUL \<notin> set ''<imageId>ami-1</imageId>''" "length ''<imageId>ami-1</imageId>'' \<le> 16365"
    by simp_all
  have x: "xmlextract ''<imageId>ami-1</imageId>'' ''imageId'' = Some ''ami-1''"
    by (simp add: xmlextract_def xmlextracts_def xmlextracts_loop.simps Let_def)
  from registerimage_demo [OF assms b x] obtain w1 where
    s1: "registerimage demo_ext region snapshot name desc arch sriov ena key_id key_secret w =
           (Some ''ami-1'', w1)"
    and r1: "replies w1 = ok_reply ''<imageState>available</imageState>'' #
               (ok_reply ''<return>true</return>'' # rest)"
    by blast
  from waitforami_demo [OF r1] obtain w2 where
    s2: "waitforami demo_ext region ''ami-1'' key_id key_secret w1 = (0, w2)"
    and r2: "replies w2 = ok_reply ''<return>true</return>'' # rest"
    by blast
  define w4 where "w4 = fprintf_stderr ''Marking images as public...''
                          (fprintf_stderr (''.'' @ [LF]) (fprintf_stderr ''Copying AMI to regions:'' w2))"
  have "replies w4 = ok_reply ''<return>true</return>'' # rest"
    using r2 by (simp add: w4_def)
  from makepublic_demo [OF this] obtain w5 where
    s5: "makepublic demo_ext region ''ami-1'' key_id key_secret w4 = (0, w5)"
    and r5: "replies w5 = rest"
    by blast
  show ?thesis
    using s1 s2 s5 r5 by (simp add: main_images_def w4_def)
qed

lemma main_stages_demo:
  "\<exists>w'. main_stages demo_ext True False False False ''x86_64'' ''disk.img'' ''FreeBSD''
          ''An image'' ''us-west-2'' ''bucket'' ''keys'' demo_start =
          (Inr (''AKID'', ''secret'', [''us-west-2''], [''ami-1'']), w') \<and>
        replies w' = [ok_reply ''<Error>AuthorizationError</Error>'']"
proof -
  let ?regions = "''<regionInfo><item><regionName>us-west-2</regionName></item></regionInfo>''"
  let ?task = "''<conversionTaskId>import-vol-1</conversionTaskId>''"
  let ?snap = "''<snapshotId>snap-1</snapshotId>''"
  let ?tail = "[ok_reply ''<imageId>ami-1</imageId>'',
                ok_reply ''<imageState>available</imageState>'',
                ok_reply ''<return>true</return>'',
                ok_reply ''<Error>AuthorizationError</Error>'']"
  have k: "readkeys ''keys'' demo_start = (Some (''AKID'', ''secret''), demo_start)"
    by (rule readkeys_demo) (simp add: demo_start_def)
  have r0: "replies demo_start = ok_reply ?regions # tl demo_replies"
    by (simp add: demo_start_def demo_replies_def)
  have b1: "NUL \<notin> set ?regions" "length ?regions \<le> 16365"
    "xmlextract ?regions ''regionInfo'' = Some ''<item><regionName>us-west-2</regionName></item>''"
    "xmlextracts ''<item><regionName>us-west-2</regionName></item>'' ''regionName'' =
       Some [''us-west-2'']"
    by (simp_all add: xmlextract_def xmlextracts_def xmlextracts_loop.simps Let_def)
  from getregionlist_demo [OF r0 b1] obtain w2 where
    s2: "getregionlist demo_ext ''AKID'' ''secret'' ''us-west-2'' demo_start =
           (Some [''us-west-2''], w2)"
    and r2: "replies w2 = tl demo_replies" and f2: "files w2 = files demo_start"
    by blast
  have img: "0 < length ''boot''" "length ''boot'' \<le> PARTSZ" "files w2 ''disk.img'' = Some ''boot''"
    by (simp_all add: PARTSZ_def f2 demo_start_def)
  have r2': "replies w2 = ok_reply [] # ok_reply [] # drop 3 demo_replies"
    unfolding r2 by (simp add: demo_replies_def)
  from uploadvolume_small [OF img r2'] obtain w3 where
    s3: "uploadvolume demo_ext ''disk.img'' ''us-west-2'' ''bucket'' ''AKID'' ''secret'' w2 =
           (Some (''/00112233445566778899aabbccddeeff/manifest.xml'', int (length ''boot'')), w3)"
    and r3: "replies w3 = drop 3 demo_replies"
    by blast
  have r3': "replies w3 = ok_reply ?task # drop 4 demo_replies"
    unfolding r3 by (simp add: demo_replies_def)
  have b4: "NUL \<notin> set ?task" "length ?task \<le> 16365"
    "xmlextract ?task ''conversionTaskId'' = Some ''import-vol-1''"
    by (simp_all add: xmlextract_def xmlextracts_def xmlextracts_loop.simps Let_def)
  from importvolume_demo [OF r3' b4] obtain w4 where
    s4: "importvolume demo_ext ''us-west-2'' ''bucket''
           ''/00112233445566778899aabbccddeeff/manifest.xml'' (int (length ''boot''))
           ''AKID'' ''secret'' w3 = (Some ''import-vol-1'', w4)"
    and r4: "replies w4 = drop 4 demo_replies"
    by blast
  have r4': "replies w4 = ok_reply completed_task # drop 5 demo_replies"
    unfolding r4 by (simp add: demo_replies_def)
  from waitforimport_demo [OF r4'] obtain w5 where
    s5: "waitforimport demo_ext ''us-west-2'' ''import-vol-1'' ''AKID'' ''secret'' w4 =
           (Some ''vol-456'', w5)"
    and r5: "replies w5 = drop 5 demo_replies"
    by blast
  have r5': "replies w5 = ok_reply ?snap # drop 6 demo_replies"
    unfolding r5 by (simp add: demo_replies_def)
  have b6: "NUL \<notin> set ?snap" "length ?snap \<le> 16365"
    "xmlextract ?snap ''snapshotId'' = Some ''snap-1''"
    by (simp_all add: xmlextract_def xmlextracts_def xmlextracts_loop.simps Let_def)
  from createsnapshot_demo [OF r5' b6] obtain w6 where
    s6: "createsnapshot demo_ext ''us-west-2'' ''vol-456'' ''AKID'' ''secret'' w5 =
           (Some ''snap-1'', w6)"
    and r6: "replies w6 = drop 6 demo_replies"
    by blast
  have r6': "replies w6 = ok_reply ''<status>completed</status>'' # drop 7 demo_replies"
    unfolding r6 by (simp add: demo_replies_def)
  from waitforsnapshot_demo [OF r6'] obtain w7 where
    s7: "waitforsnapshot demo_ext ''us-west-2'' ''snap-1'' ''AKID'' ''secret'' w6 = (0, w7)"
    and r7: "replies w7 = drop 7 demo_replies"
    by blast
  have r7': "replies w7 = ok_reply ''<return>true</return>'' # ?tail"
    unfolding r7 by (simp add: demo_replies_def)
  from deletevolume_demo [OF r7'] obtain w8 where
    s8: "deletevolume demo_ext ''us-west-2'' ''vol-456'' ''AKID'' ''secret'' w7 = (0, w8)"
    and r8: "replies w8 = ?tail"
    by blast
  from main_images_demo [OF r8] obtain w9 where
    s9: "main_images demo_ext True False False ''x86_64'' ''FreeBSD'' ''An image'' ''us-west-2''
           ''AKID'' ''secret'' [''us-west-2''] ''snap-1'' w8 = (Inr [''ami-1''], w9)"
    and r9: "replies w9 = [ok_reply ''<Error>AuthorizationError</Error>'']"
    by blast
  show ?thesis
    using k s2 s3 s4 s5 s6 s7 s8 s9 r9 by (simp add: main_stages_def)
qed

theorem main_notification_best_effort_witness:
  "\<exists>w1 w2.
     main_stages demo_ext True False False False ''x86_64'' ''disk.img'' ''FreeBSD'' ''An image''
       ''us-west-2'' ''bucket'' ''keys'' demo_start =
       (Inr (''AKID'', ''secret'', [''us-west-2''], [''ami-1'']), w1) \<and>
     sns_publish demo_ext ''AKID'' ''secret'' ''arn:aws:sns:us-east-1:782442783595:topic''
       ''12.0-RELEASE'' ''12.0'' ''FreeBSD'' 1 [''us-west-2''] [''ami-1''] w1 = (- 1, w2) \<and>
     main demo_ext demo_argv demo_start = (0, warnp ''Failed to send SNS notification'' w2)"
proof -
  let ?argv = "tl demo_argv"
  let ?body = "''<Error>AuthorizationError</Error>''"
  obtain w1 where
    st: "main_stages demo_ext True False False False ''x86_64'' ''disk.img'' ''FreeBSD''
           ''An image'' ''us-west-2'' ''bucket'' ''keys'' demo_start =
           (Inr (''AKID'', ''secret'', [''us-west-2''], [''ami-1'']), w1)"
    and r1: "replies w1 = [ok_reply ?body]"
    using main_stages_demo by blast
  obtain rc w2 where
    sns: "sns_publish demo_ext ''AKID'' ''secret'' ''arn:aws:sns:us-east-1:782442783595:topic''
            ''12.0-RELEASE'' ''12.0'' ''FreeBSD'' 1 [''us-west-2''] [''ami-1''] w1 = (rc, w2)"
    by (cases "sns_publish demo_ext ''AKID'' ''secret'' ''arn:aws:sns:us-east-1:782442783595:topic''
            ''12.0-RELEASE'' ''12.0'' ''FreeBSD'' 1 [''us-west-2''] [''ami-1''] w1")
  have flags: "main_flags demo_argv False False False False ''x86_64'' =
                 (?argv, True, False, False, False, ''x86_64'')"
    by (simp add: demo_argv_def)
  have len: "length ?argv = 10"
    by (simp add: demo_argv_def)
  have args: "?argv ! 1 = ''disk.img''" "?argv ! 2 = ''FreeBSD''" "?argv ! 3 = ''An image''"
    "?argv ! 4 = ''us-west-2''" "?argv ! 5 = ''bucket''" "?argv ! 6 = ''keys''"
    "?argv ! 7 = ''arn:aws:sns:us-east-1:782442783595:topic''" "?argv ! 8 = ''12.0-RELEASE''"
    "?argv ! 9 = ''12.0''"
    by (simp_all add: demo_argv_def)
  have one: "length [''us-west-2''] = 1" by simp
  have bytes: "replies w1 = Inr (''HTTP/1.1 200 OK'' @ CRLF @ CRLF @ ?body) # []"
    unfolding r1 by (simp add: ok_reply_def)
  have short: "take 16384 (''HTTP/1.1 200 OK'' @ CRLF @ CRLF @ ?body) =
               ''HTTP/1.1 200 OK'' @ CRLF @ CRLF @ ?body"
    by simp
  have clean: "cstr (''HTTP/1.1 200 OK'' @ CRLF @ CRLF @ ?body) =
               ''HTTP/1.1 200 OK'' @ CRLF @ CRLF @ ?body"
    by (rule cstr_no_NUL) simp
  have hdr: "strstr (cstr (take 16384 (''HTTP/1.1 200 OK'' @ CRLF @ CRLF @ ?body))) (CRLF @ CRLF) =
             Some 15"
    unfolding short clean by (rule ok_reply_body)
  have none: "strstr (drop (15 + 4) (cstr (take 16384 (''HTTP/1.1 200 OK'' @ CRLF @ CRLF @ ?body))))
                ''<MessageId>'' = None"
    unfolding short clean by simp
  note inst = main_notification_best_effort [of demo_argv ?argv True False False False "''x86_64''"
      demo_ext demo_start "''AKID''" "''secret''" "[''us-west-2'']" "[''ami-1'']" w1 rc w2,
      unfolded args one, OF flags len st sns]
  from inst bytes hdr none have "rc = - 1"
    by blast
  with inst sns st show ?thesis
    by auto
qed

end
